theory Spec2Isabelle
  imports Main "HOL-Library.AList" "HOL-Library.Char_ord" "HOL-Library.List_Lexorder"
begin

section \<open>Python values\<close>

text \<open>
  The scraper passes server records around as Python dicts decoded from, and encoded to,
  JSON. A value is one of the JSON shapes; a dict is an association list in insertion
  order (keys are looked up with \<open>map_of\<close>, stored with \<open>AList.update\<close>, which keeps the
  position of an existing key and appends a new one, as a Python dict does).
  Strings are lists of 8-bit characters, read as the code points U+0000 to U+00FF.
\<close>

datatype pyval =
    PNone
  | PBool bool
  | PInt int
  | PStr string
  | PList "pyval list"
  | PDict "(string \<times> pyval) list"

type_synonym pydict = "(string \<times> pyval) list"

datatype error = ValueError | TypeError | KeyError | AttributeError

text \<open>\<open>d.get(k, default)\<close>\<close>

definition dict_get :: "pydict \<Rightarrow> string \<Rightarrow> pyval \<Rightarrow> pyval" where
  "dict_get d k dflt = (case map_of d k of Some v \<Rightarrow> v | None \<Rightarrow> dflt)"

text \<open>\<open>d[k]\<close>, which raises KeyError on a missing key.\<close>

definition dict_item :: "pydict \<Rightarrow> string \<Rightarrow> error + pyval" where
  "dict_item d k = (case map_of d k of Some v \<Rightarrow> Inr v | None \<Rightarrow> Inl KeyError)"

text \<open>\<open>len(v)\<close>: defined on strings, lists and dicts, TypeError on the other shapes.\<close>

fun py_len :: "pyval \<Rightarrow> error + nat" where
  "py_len (PStr s) = Inr (length s)"
| "py_len (PList xs) = Inr (length xs)"
| "py_len (PDict d) = Inr (length d)"
| "py_len _ = Inl TypeError"

text \<open>
  \<open>n == v\<close> for an int \<open>n\<close>: true only for an equal number (a bool counts as 0 or 1).
\<close>

fun py_int_eq :: "int \<Rightarrow> pyval \<Rightarrow> bool" where
  "py_int_eq n (PInt d) = (n = d)"
| "py_int_eq n (PBool b) = (n = (if b then 1 else 0))"
| "py_int_eq n _ = False"

text \<open>
  \<open>v > 0\<close>. The source evaluates it only after \<open>tools_count == v\<close> has succeeded, so
  \<open>v\<close> is a number there; the other shapes (where Python raises) are never reached.
\<close>

fun py_gt_zero :: "pyval \<Rightarrow> bool" where
  "py_gt_zero (PInt d) = (d > 0)"
| "py_gt_zero (PBool b) = b"
| "py_gt_zero _ = False"

section \<open>\<open>SmitheryScraper.normalize_server\<close>\<close>

definition normalize_tool :: "pydict \<Rightarrow> pyval" where
  "normalize_tool tool = PDict
     [(''name'', dict_get tool ''name'' (PStr '''')),
      (''description'', dict_get tool ''description'' (PStr '''')),
      (''inputSchema'', dict_get tool ''inputSchema'' (PDict []))]"

text \<open>The loop over \<open>normalized["tools"]\<close>: only dict entries are kept.\<close>

fun normalize_tools :: "pyval list \<Rightarrow> pyval list" where
  "normalize_tools [] = []"
| "normalize_tools (PDict tool # rest) = normalize_tool tool # normalize_tools rest"
| "normalize_tools (_ # rest) = normalize_tools rest"

definition normalize_server :: "pydict \<Rightarrow> pydict" where
  "normalize_server server =
     (let tools = (case dict_get server ''tools'' (PList []) of PList ts \<Rightarrow> ts | _ \<Rightarrow> []);
          normalized_tools = normalize_tools tools
      in [(''server_name'', dict_get server ''server_name'' (PStr '''')),
          (''server_url'', dict_get server ''server_url'' (PStr '''')),
          (''connection_url'', dict_get server ''connection_url'' (PStr '''')),
          (''homepage'', dict_get server ''homepage'' (PStr '''')),
          (''source_code'', dict_get server ''source_code'' (PStr '''')),
          (''authentication_method'', dict_get server ''authentication_method'' (PStr '''')),
          (''description'', dict_get server ''description'' (PStr '''')),
          (''total_tools'', PInt (int (length normalized_tools))),
          (''tools'', PList normalized_tools)])"

text \<open>
  The tool entries that survive normalisation, in the words of the specification: the
  dict entries of the \<open>tools\<close> field when that field is a list, none otherwise.
\<close>

definition surviving_tools :: "pydict \<Rightarrow> pydict list" where
  "surviving_tools server =
     (case map_of server ''tools'' of
        Some (PList raw) \<Rightarrow> [tool. PDict tool \<leftarrow> raw]
      | _ \<Rightarrow> [])"

section \<open>Crawl outcome classification\<close>

text \<open>\<open>classify\<close> of \<open>rescrape_missing_servers.py\<close>.\<close>

definition classify :: "pydict \<Rightarrow> error + string" where
  "classify server_data =
     (case py_len (dict_get server_data ''tools'' (PList [])) of
        Inl e \<Rightarrow> Inl e
      | Inr tools_count \<Rightarrow>
          (let expected = dict_get server_data ''total_tools'' (PInt 0)
           in if py_int_eq (int tools_count) expected \<and> py_gt_zero expected then Inr ''SUCCESS''
              else if tools_count > 0 then Inr ''PARTIAL''
              else Inr ''FAILED''))"

text \<open>
  \<open>rescrape\<close> of \<open>rescrape_missing_servers.py\<close> classifies what
  \<open>scrape_single_server_with_browser\<close> returns, which is the record that
  \<open>scrape_server_page\<close> produced after \<open>normalize_server\<close>.
\<close>

definition rescrape_status :: "pydict \<Rightarrow> error + string" where
  "rescrape_status scraped = (if scraped = [] then Inr ''FAILED'' else classify (normalize_server scraped))"

text \<open>The statistics counters of \<open>SmitheryScraper\<close>.\<close>

record stats =
  total_servers :: nat
  scraped :: nat
  success :: nat
  partial :: nat
  failed :: nat
  total_tools :: nat

text \<open>
  The body of \<open>scrape_single_server_with_browser\<close> after \<open>scrape_server_page\<close> has
  returned \<open>server_data\<close>: normalise, then update the counters. The result is the
  updated counters and the record that is returned (and appended to the log).
\<close>

definition record_scraped :: "stats \<Rightarrow> pydict \<Rightarrow> error + (stats \<times> pydict)" where
  "record_scraped st server_data0 =
     (if server_data0 = [] then Inr (st, server_data0)
      else
        let server_data = normalize_server server_data0
        in case py_len (dict_get server_data ''tools'' (PList [])) of
             Inl e \<Rightarrow> Inl e
           | Inr tools_count \<Rightarrow>
               (let expected_tools = dict_get server_data ''total_tools'' (PInt 0);
                    st1 = st\<lparr>scraped := scraped st + 1, total_tools := total_tools st + tools_count\<rparr>;
                    st2 = (if py_int_eq (int tools_count) expected_tools \<and> py_gt_zero expected_tools
                           then st1\<lparr>success := success st1 + 1\<rparr>
                           else if tools_count > 0 then st1\<lparr>partial := partial st1 + 1\<rparr>
                           else st1\<lparr>failed := failed st1 + 1\<rparr>)
                in Inr (st2, server_data)))"

section \<open>Python string operations\<close>

text \<open>
  Character classes as Python's \<open>str\<close> methods decide them on the code points below
  U+0100: \<open>isspace\<close> (also the set that \<open>strip()\<close> and \<open>split()\<close> use), \<open>islower\<close>,
  \<open>isupper\<close>.
\<close>

definition isspace :: "char \<Rightarrow> bool" where
  "isspace c = (let n = (of_char c :: nat)
                in (9 \<le> n \<and> n \<le> 13) \<or> (28 \<le> n \<and> n \<le> 32) \<or> n = 133 \<or> n = 160)"

definition islower_char :: "char \<Rightarrow> bool" where
  "islower_char c = (let n = (of_char c :: nat)
                     in (97 \<le> n \<and> n \<le> 122) \<or> n = 170 \<or> n = 181 \<or> n = 186
                        \<or> (223 \<le> n \<and> n \<le> 246) \<or> (248 \<le> n \<and> n \<le> 255))"

definition isupper_char :: "char \<Rightarrow> bool" where
  "isupper_char c = (let n = (of_char c :: nat)
                     in (65 \<le> n \<and> n \<le> 90) \<or> (192 \<le> n \<and> n \<le> 214) \<or> (216 \<le> n \<and> n \<le> 222))"

definition isascii_char :: "char \<Rightarrow> bool" where
  "isascii_char c = ((of_char c :: nat) < 128)"

text \<open>\<open>c.isascii() and c.isalpha()\<close>\<close>

definition ascii_alpha :: "char \<Rightarrow> bool" where
  "ascii_alpha c = (let n = (of_char c :: nat) in (65 \<le> n \<and> n \<le> 90) \<or> (97 \<le> n \<and> n \<le> 122))"

text \<open>\<open>s.isupper()\<close>: some cased character, and no lower-case one.\<close>

definition isupper :: "string \<Rightarrow> bool" where
  "isupper s = (list_ex isupper_char s \<and> \<not> list_ex islower_char s)"

text \<open>\<open>s.strip()\<close>, \<open>s.rstrip(c)\<close>, \<open>s.startswith(p)\<close>, \<open>sub in s\<close>\<close>

definition strip :: "string \<Rightarrow> string" where
  "strip s = rev (dropWhile isspace (rev (dropWhile isspace s)))"

definition rstrip_char :: "char \<Rightarrow> string \<Rightarrow> string" where
  "rstrip_char c s = rev (dropWhile (\<lambda>x. x = c) (rev s))"

definition startswith :: "string \<Rightarrow> string \<Rightarrow> bool" where
  "startswith s p = (take (length p) s = p)"

fun contains :: "string \<Rightarrow> string \<Rightarrow> bool" where
  "contains [] sub = (sub = [])"
| "contains (c # cs) sub = (startswith (c # cs) sub \<or> contains cs sub)"

text \<open>
  \<open>s.replace(old, '')\<close> for a non-empty \<open>old\<close>: the occurrences are removed from left to
  right, without rescanning what a removal joins. The counter is the number of characters
  of the current occurrence still to be skipped.
\<close>

fun remove_from :: "nat \<Rightarrow> string \<Rightarrow> string \<Rightarrow> string" where
  "remove_from k old [] = []"
| "remove_from (Suc k) old (c # cs) = remove_from k old cs"
| "remove_from 0 old (c # cs) =
     (if old \<noteq> [] \<and> startswith (c # cs) old then remove_from (length old - 1) old cs
      else c # remove_from 0 old cs)"

definition remove_all :: "string \<Rightarrow> string \<Rightarrow> string" where
  "remove_all old s = remove_from 0 old s"

text \<open>\<open>s.split(sep)\<close> for a one-character separator.\<close>

fun split_on :: "char \<Rightarrow> string \<Rightarrow> string list" where
  "split_on sep [] = [[]]"
| "split_on sep (c # cs) =
     (if c = sep then [] # split_on sep cs
      else (case split_on sep cs of [] \<Rightarrow> [[c]] | w # ws \<Rightarrow> (c # w) # ws))"

text \<open>
  \<open>len(s.split())\<close>: the number of maximal runs of non-whitespace characters; the flag
  says whether the previous character belonged to a run.
\<close>

fun count_words :: "bool \<Rightarrow> string \<Rightarrow> nat" where
  "count_words in_word [] = 0"
| "count_words in_word (c # cs) =
     (if isspace c then count_words False cs
      else (if in_word then 0 else 1) + count_words True cs)"

definition word_count :: "string \<Rightarrow> nat" where
  "word_count s = count_words False s"

text \<open>\<open>sep.join(parts)\<close>\<close>

fun join :: "string \<Rightarrow> string list \<Rightarrow> string" where
  "join sep [] = []"
| "join sep [x] = x"
| "join sep (x # y # rest) = x @ sep @ join sep (y # rest)"

text \<open>\<open>s[start:]\<close> for any integer \<open>start\<close>: a negative one counts from the end.\<close>

definition slice_from :: "string \<Rightarrow> int \<Rightarrow> string" where
  "slice_from s start =
     (if start < 0 then drop (nat (int (length s) + start)) s else drop (nat start) s)"

section \<open>\<open>SmitheryScraper.parse_parameters_from_text\<close>\<close>

record param_entry =
  ptype :: string
  pdescription :: string

text \<open>The local variables of the scan.\<close>

record scan =
  parameters :: "(string \<times> param_entry) list"
  required_params :: "string list"
  current_param :: "string option"
  param_type :: "string option"
  param_desc :: "string list"
  desc_line_count :: nat

definition section_markers :: "string list" where
  "section_markers = [''Connect'', ''Details'', ''Resources'', ''Company'', ''Capabilities'',
                      ''Get connection URL'', ''Or add to your client'']"

definition type_keywords :: "string list" where
  "type_keywords = [''string'', ''integer'', ''boolean'', ''object'', ''array'', ''number'']"

definition looks_like_param_name :: "string \<Rightarrow> bool" where
  "looks_like_param_name line =
     (case line of
        [] \<Rightarrow> False
      | c # _ \<Rightarrow>
          length line < 50 \<and> word_count line \<le> 2
          \<and> (islower_char c \<or> contains line ''*required'')
          \<and> (contains line ''*required'' \<or> CHR '' '' \<notin> set line \<or> count_list line CHR '' '' = 0))"

text \<open>
  "Save previous parameter if complete", which the source writes once in the loop and once
  after it: a pending name is stored only together with a type.
\<close>

definition save_param :: "scan \<Rightarrow> scan" where
  "save_param st =
     (case (current_param st, param_type st) of
        (Some cur, Some ty) \<Rightarrow>
          (let param_name_clean = strip (remove_all ''*required'' cur)
           in st\<lparr>parameters :=
                    AList.update param_name_clean
                      \<lparr>ptype = ty, pdescription = strip (join '' '' (param_desc st))\<rparr>
                      (parameters st),
                  required_params :=
                    (if contains cur ''*required'' then required_params st @ [param_name_clean]
                     else required_params st)\<rparr>)
      | _ \<Rightarrow> st)"

text \<open>One iteration of the loop over the lines; \<open>None\<close> is \<open>break\<close>.\<close>

definition scan_line :: "scan \<Rightarrow> string \<Rightarrow> scan option" where
  "scan_line st raw =
     (let line = strip raw
      in if line = [] then Some st
         else if line \<in> set section_markers then None
         else if isupper line \<and> CHR ''_'' \<in> set line \<and> length line > 15 then None
         else if line \<in> set type_keywords then
           Some (if current_param st \<noteq> None \<and> param_type st = None
                 then st\<lparr>param_type := Some line, desc_line_count := 0\<rparr> else st)
         else if looks_like_param_name line then
           Some ((save_param st)\<lparr>current_param := Some line, param_type := None,
                                 param_desc := [], desc_line_count := 0\<rparr>)
         else if current_param st \<noteq> None \<and> param_type st \<noteq> None then
           Some (st\<lparr>param_desc := param_desc st @ [line],
                    desc_line_count := desc_line_count st + 1\<rparr>)
         else Some st)"

fun scan_lines :: "scan \<Rightarrow> string list \<Rightarrow> scan" where
  "scan_lines st [] = st"
| "scan_lines st (raw # rest) =
     (case scan_line st raw of None \<Rightarrow> st | Some st' \<Rightarrow> scan_lines st' rest)"

definition parse_parameters_from_text ::
    "string \<Rightarrow> int \<Rightarrow> (string \<times> param_entry) list \<times> string list" where
  "parse_parameters_from_text text start_pos =
     (let lines = split_on (CHR 0x0A) (slice_from text start_pos);
          st = scan_lines \<lparr>parameters = [], required_params = [], current_param = None,
                           param_type = None, param_desc = [], desc_line_count = 0\<rparr> lines;
          st = save_param st
      in (parameters st, required_params st))"

section \<open>URL normalisation (\<open>missing_servers_checker.py\<close>)\<close>

subsection \<open>\<open>urllib.parse.urlsplit\<close> and \<open>urlunsplit\<close>\<close>

text \<open>
  The source calls the standard library's \<open>urlsplit\<close> and \<open>urlunsplit\<close>; they are
  transcribed here from CPython 3.11 (\<open>Lib/urllib/parse.py\<close>). Two library checks are not
  transcribed but taken as parameters, since they rest on the \<open>ipaddress\<close> parser and on
  Unicode NFKC normalisation: \<open>check_bracketed_host h\<close> is False where
  \<open>_check_bracketed_host(h)\<close> raises ValueError, and \<open>nfkc_rejects n\<close> is True where
  \<open>_checknetloc\<close> finds, in the NFKC form of a non-ASCII netloc \<open>n\<close>, one of the
  characters \<open>/?#@:\<close>.
\<close>

record urllib =
  check_bracketed_host :: "string \<Rightarrow> bool"
  nfkc_rejects :: "string \<Rightarrow> bool"

record split_result =
  scheme :: string
  netloc :: string
  path :: string
  query :: string
  fragment :: string

definition scheme_chars :: string where
  "scheme_chars = ''abcdefghijklmnopqrstuvwxyzABCDEFGHIJKLMNOPQRSTUVWXYZ0123456789+-.''"

definition uses_netloc :: "string list" where
  "uses_netloc = [[], ''ftp'', ''http'', ''gopher'', ''nntp'', ''telnet'',
                  ''imap'', ''wais'', ''file'', ''mms'', ''https'', ''shttp'',
                  ''snews'', ''prospero'', ''rtsp'', ''rtsps'', ''rtspu'', ''rsync'',
                  ''svn'', ''svn+ssh'', ''sftp'', ''nfs'', ''git'', ''git+ssh'',
                  ''ws'', ''wss'']"

text \<open>\<open>_WHATWG_C0_CONTROL_OR_SPACE\<close> and \<open>_UNSAFE_URL_BYTES_TO_REMOVE\<close>\<close>

definition c0_control_or_space :: "char \<Rightarrow> bool" where
  "c0_control_or_space c = ((of_char c :: nat) \<le> 32)"

definition unsafe_url_byte :: "char \<Rightarrow> bool" where
  "unsafe_url_byte c = (c = CHR 0x09 \<or> c = CHR 0x0D \<or> c = CHR 0x0A)"

text \<open>
  \<open>str.lower()\<close> on one character. \<open>urlsplit\<close> applies it to a scheme, whose characters
  are all in \<open>scheme_chars\<close>, so only the ASCII letters matter.
\<close>

definition lower_char :: "char \<Rightarrow> char" where
  "lower_char c = (let n = (of_char c :: nat) in if 65 \<le> n \<and> n \<le> 90 then char_of (n + 32) else c)"

text \<open>\<open>_splitnetloc(url, 2)\<close>: the netloc ends at the first of \<open>/?#\<close>.\<close>

definition netloc_delim :: "char \<Rightarrow> bool" where
  "netloc_delim c = (c = CHR ''/'' \<or> c = CHR ''?'' \<or> c = CHR ''#'')"

definition splitnetloc :: "string \<Rightarrow> string \<times> string" where
  "splitnetloc url =
     (takeWhile (\<lambda>c. \<not> netloc_delim c) (drop 2 url), dropWhile (\<lambda>c. \<not> netloc_delim c) (drop 2 url))"

text \<open>\<open>netloc.partition('[')[2].partition(']')[0]\<close>\<close>

definition bracketed_host :: "string \<Rightarrow> string" where
  "bracketed_host n =
     takeWhile (\<lambda>c. c \<noteq> CHR '']'') (drop 1 (dropWhile (\<lambda>c. c \<noteq> CHR ''['') n))"

text \<open>\<open>_checknetloc\<close>: True where it returns, False where it raises ValueError.\<close>

definition checknetloc :: "urllib \<Rightarrow> string \<Rightarrow> bool" where
  "checknetloc lib n = (n = [] \<or> list_all isascii_char n \<or> \<not> nfkc_rejects lib n)"

text \<open>
  The body of \<open>urlsplit\<close>, block by block. First
  \<open>url.lstrip(_WHATWG_C0_CONTROL_OR_SPACE)\<close> and the removal of the unsafe bytes.
\<close>

definition strip_unsafe :: "string \<Rightarrow> string" where
  "strip_unsafe url = filter (\<lambda>c. \<not> unsafe_url_byte c) (dropWhile c0_control_or_space url)"

text \<open>
  \<open>i = url.find(':')\<close>; a scheme is split off when \<open>i > 0\<close>, \<open>url[0]\<close> is an ASCII
  letter and every character of \<open>url[:i]\<close> is in \<open>scheme_chars\<close>. The result is the
  pair \<open>(scheme, url)\<close>.
\<close>

definition has_scheme :: "string \<Rightarrow> bool" where
  "has_scheme url =
     (CHR '':'' \<in> set url
      \<and> (case takeWhile (\<lambda>c. c \<noteq> CHR '':'') url of [] \<Rightarrow> False | c # _ \<Rightarrow> ascii_alpha c)
      \<and> list_all (\<lambda>c. c \<in> set scheme_chars) (takeWhile (\<lambda>c. c \<noteq> CHR '':'') url))"

definition split_scheme :: "string \<Rightarrow> string \<times> string" where
  "split_scheme url =
     (if has_scheme url
      then (map lower_char (takeWhile (\<lambda>c. c \<noteq> CHR '':'') url),
            drop (length (takeWhile (\<lambda>c. c \<noteq> CHR '':'') url) + 1) url)
      else ([], url))"

text \<open>\<open>if url[:2] == '//': netloc, url = _splitnetloc(url, 2)\<close>\<close>

definition split_authority :: "string \<Rightarrow> string \<times> string" where
  "split_authority url = (if take 2 url = ''//'' then splitnetloc url else ([], url))"

text \<open>
  The two bracket checks made under \<open>url[:2] == '//'\<close>: True where one of them raises
  ValueError.
\<close>

definition invalid_brackets :: "urllib \<Rightarrow> string \<Rightarrow> string \<Rightarrow> bool" where
  "invalid_brackets lib url n =
     (take 2 url = ''//''
      \<and> ((CHR ''['' \<in> set n \<and> CHR '']'' \<notin> set n) \<or> (CHR '']'' \<in> set n \<and> CHR ''['' \<notin> set n)
          \<or> (CHR ''['' \<in> set n \<and> CHR '']'' \<in> set n
              \<and> \<not> check_bracketed_host lib (bracketed_host n))))"

text \<open>\<open>if sep in url: url, tail = url.split(sep, 1)\<close>, for the fragment and the query.\<close>

definition split_first :: "char \<Rightarrow> string \<Rightarrow> string \<times> string" where
  "split_first sep url =
     (if sep \<in> set url
      then (takeWhile (\<lambda>c. c \<noteq> sep) url, drop 1 (dropWhile (\<lambda>c. c \<noteq> sep) url))
      else (url, []))"

definition urlsplit :: "urllib \<Rightarrow> string \<Rightarrow> error + split_result" where
  "urlsplit lib url0 =
     (let url1 = strip_unsafe url0;
          (scheme1, url2) = split_scheme url1;
          (netloc1, url3) = split_authority url2
      in if invalid_brackets lib url2 netloc1 then Inl ValueError
         else
           let (url4, fragment1) = split_first (CHR ''#'') url3;
               (url5, query1) = split_first (CHR ''?'') url4
           in if \<not> checknetloc lib netloc1 then Inl ValueError
              else Inr \<lparr>scheme = scheme1, netloc = netloc1, path = url5,
                        query = query1, fragment = fragment1\<rparr>)"

definition urlunsplit :: "split_result \<Rightarrow> string" where
  "urlunsplit r =
     (let url = path r;
          url = (if netloc r \<noteq> [] \<or> (scheme r \<noteq> [] \<and> scheme r \<in> set uses_netloc)
                    \<or> take 2 url = ''//''
                 then ''//'' @ netloc r @ (if url \<noteq> [] \<and> take 1 url \<noteq> ''/'' then ''/'' @ url else url)
                 else url);
          url = (if scheme r \<noteq> [] then scheme r @ '':'' @ url else url);
          url = (if query r \<noteq> [] then url @ ''?'' @ query r else url);
          url = (if fragment r \<noteq> [] then url @ ''#'' @ fragment r else url)
      in url)"

subsection \<open>\<open>normalize_server_url\<close> and \<open>find_missing_servers\<close>\<close>

definition BASE_URL :: string where
  "BASE_URL = ''https://smithery.ai''"

definition normalize_server_url :: "urllib \<Rightarrow> string \<Rightarrow> error + string" where
  "normalize_server_url lib url =
     (if url = [] then Inr []
      else
        let url = strip url;
            url = (if startswith url ''/server/'' then BASE_URL @ url else url)
        in case urlsplit lib url of
             Inl e \<Rightarrow> Inl e
           | Inr parsed \<Rightarrow>
               Inr (urlunsplit
                 \<lparr>scheme = (if scheme parsed \<noteq> [] then scheme parsed else ''https''),
                  netloc = (if netloc parsed \<noteq> [] then netloc parsed else ''smithery.ai''),
                  path = rstrip_char (CHR ''/'') (path parsed),
                  query = [], fragment = []\<rparr>))"




section \<open>Listing discovery (\<open>fetch_current_server_urls\<close>)\<close>

text \<open>
  What \<open>_fetch_page_urls\<close> returns for a listing page (besides the page number): the
  URLs found, the total page count read from the page if any, and the error message if
  the page failed to load. It depends on the site, so the listing source is a parameter:
  a function from page numbers to page results.
\<close>

record page_result =
  page_urls :: "string set"
  detected_total_pages :: "int option"
  page_error :: "string option"

text \<open>
  The sequential fallback loop, entered with the URLs collected so far and the number of
  the page to fetch next.
\<close>

function crawl_sequential ::
    "(int \<Rightarrow> page_result) \<Rightarrow> int option \<Rightarrow> string set \<Rightarrow> int \<Rightarrow> string set" where
  "crawl_sequential fetch max_pages urls page =
     (if page_urls (fetch page) = {} then urls
      else if (case max_pages of None \<Rightarrow> False | Some m \<Rightarrow> m \<noteq> 0 \<and> page + 1 > m)
        then urls \<union> page_urls (fetch page)
      else if page + 1 > 100 then urls \<union> page_urls (fetch page)
      else crawl_sequential fetch max_pages (urls \<union> page_urls (fetch page)) (page + 1))"
  by pat_completeness auto
termination
  by (relation "measure (\<lambda>(fetch, max_pages, urls, page). nat (101 - page))") auto

definition fetch_current_server_urls ::
    "(int \<Rightarrow> page_result) \<Rightarrow> int option \<Rightarrow> string list" where
  "fetch_current_server_urls fetch max_pages =
     (let urls = page_urls (fetch 1);
          detected_total = detected_total_pages (fetch 1);
          total_pages = (case max_pages of
                           Some m \<Rightarrow> Some m
                         | None \<Rightarrow> (case detected_total of
                                      Some t \<Rightarrow> (if t \<noteq> 0 then Some t else None)
                                    | None \<Rightarrow> None))
      in case total_pages of
           Some t \<Rightarrow>
             (if t \<noteq> 0 \<and> t > 1
              then sorted_list_of_set (fold (\<lambda>n acc. acc \<union> page_urls (fetch n)) [2..t] urls)
              else sorted_list_of_set (crawl_sequential fetch max_pages urls 2))
         | None \<Rightarrow> sorted_list_of_set (crawl_sequential fetch max_pages urls 2))"

section \<open>Writing the final artifact (\<open>SmitheryScraper.save_to_json\<close>)\<close>

text \<open>\<open>v[k]\<close> for a string key: only a dict can be subscripted with one.\<close>

fun py_item :: "pyval \<Rightarrow> string \<Rightarrow> error + pyval" where
  "py_item (PDict d) k = dict_item d k"
| "py_item _ k = Inl TypeError"

text \<open>
  Membership in a Python set of values: lists and dicts cannot be hashed (TypeError);
  the other values are compared with \<open>==\<close>, under which a bool equals the int 0 or 1.
\<close>

fun py_hashable :: "pyval \<Rightarrow> bool" where
  "py_hashable (PList _) = False"
| "py_hashable (PDict _) = False"
| "py_hashable _ = True"

fun py_key :: "pyval \<Rightarrow> pyval" where
  "py_key (PBool b) = PInt (if b then 1 else 0)"
| "py_key v = v"

text \<open>
  The replay of the JSONL log: every line is stripped, an empty one skipped, and a line
  is kept when \<open>json.loads\<close> decodes it. The decoder is library code and a parameter;
  \<open>None\<close> is its JSONDecodeError.
\<close>

fun replay_jsonl :: "(string \<Rightarrow> pyval option) \<Rightarrow> string list \<Rightarrow> pyval list" where
  "replay_jsonl json_loads [] = []"
| "replay_jsonl json_loads (raw # rest) =
     (let line = strip raw
      in if line \<noteq> [] then
           (case json_loads line of
              Some server_data \<Rightarrow> server_data # replay_jsonl json_loads rest
            | None \<Rightarrow> replay_jsonl json_loads rest)
         else replay_jsonl json_loads rest)"

text \<open>\<open>existing_urls = {s['server_url'] for s in self.servers_data}\<close>\<close>

fun existing_urls_of :: "pyval list \<Rightarrow> error + pyval set" where
  "existing_urls_of [] = Inr {}"
| "existing_urls_of (s # rest) =
     (case py_item s ''server_url'' of
        Inl e \<Rightarrow> Inl e
      | Inr u \<Rightarrow>
          (if \<not> py_hashable u then Inl TypeError
           else (case existing_urls_of rest of
                   Inl e \<Rightarrow> Inl e
                 | Inr us \<Rightarrow> Inr (insert (py_key u) us))))"

text \<open>
  The merge loop: a replayed record is appended when its URL is not in \<open>existing_urls\<close>,
  the set computed before the loop.
\<close>

fun merge_replayed :: "pyval set \<Rightarrow> pyval list \<Rightarrow> pyval list \<Rightarrow> error + pyval list" where
  "merge_replayed existing_urls servers_data [] = Inr servers_data"
| "merge_replayed existing_urls servers_data (server # rest) =
     (case py_item server ''server_url'' of
        Inl e \<Rightarrow> Inl e
      | Inr u \<Rightarrow>
          (if \<not> py_hashable u then Inl TypeError
           else merge_replayed existing_urls
                  (if py_key u \<notin> existing_urls then servers_data @ [server] else servers_data)
                  rest))"

text \<open>
  \<open>normalize_server(s)\<close> calls \<open>s.get\<close>, which only a dict has: on any other value
  the attribute lookup raises AttributeError.
\<close>

fun normalize_each :: "pyval list \<Rightarrow> error + pydict list" where
  "normalize_each [] = Inr []"
| "normalize_each (PDict s # rest) =
     (case normalize_each rest of Inl e \<Rightarrow> Inl e | Inr ns \<Rightarrow> Inr (normalize_server s # ns))"
| "normalize_each (_ # rest) = Inl AttributeError"

text \<open>
  \<open>save_to_json\<close>: from the in-memory records and the lines of the JSONL file (\<open>None\<close>
  when incremental saving is off or the file does not exist) to the list that is
  written.
\<close>

definition save_to_json ::
    "(string \<Rightarrow> pyval option) \<Rightarrow> pyval list \<Rightarrow> string list option \<Rightarrow> error + pydict list" where
  "save_to_json json_loads servers_data jsonl =
     (case jsonl of
        None \<Rightarrow> normalize_each servers_data
      | Some file_lines \<Rightarrow>
          (let servers_from_jsonl = replay_jsonl json_loads file_lines
           in case existing_urls_of servers_data of
                Inl e \<Rightarrow> Inl e
              | Inr existing_urls \<Rightarrow>
                  (case merge_replayed existing_urls servers_data servers_from_jsonl of
                     Inl e \<Rightarrow> Inl e
                   | Inr merged \<Rightarrow> normalize_each merged)))"

section \<open>Auxiliary definitions for the proofs\<close>

text \<open>
  The invariant of the scan: every stored entry has one of the six type tokens, every
  required name is a stored name, and a pending type is one of the six tokens.
\<close>

definition scan_inv :: "scan \<Rightarrow> bool" where
  "scan_inv st =
     ((\<forall>(n, e) \<in> set (parameters st). ptype e \<in> set type_keywords)
      \<and> set (required_params st) \<subseteq> fst ` set (parameters st)
      \<and> (\<forall>ty. param_type st = Some ty \<longrightarrow> ty \<in> set type_keywords))"

text \<open>
  The shape of a scheme that \<open>urlsplit\<close> has split off, and what it means for a netloc
  to pass every check of \<open>urlsplit\<close>.
\<close>

definition valid_scheme :: "string \<Rightarrow> bool" where
  "valid_scheme s = (s \<noteq> [] \<and> ascii_alpha (hd s) \<and> (\<forall>c\<in>set s. c \<in> set scheme_chars)
                     \<and> map lower_char s = s)"

definition netloc_accepted :: "urllib \<Rightarrow> string \<Rightarrow> bool" where
  "netloc_accepted lib n =
     (\<not> (CHR ''['' \<in> set n \<and> CHR '']'' \<notin> set n) \<and> \<not> (CHR '']'' \<in> set n \<and> CHR ''['' \<notin> set n)
      \<and> (CHR ''['' \<in> set n \<and> CHR '']'' \<in> set n \<longrightarrow> check_bracketed_host lib (bracketed_host n))
      \<and> checknetloc lib n)"

text \<open>
  The most permissive library parameters: every bracketed host is accepted and NFKC
  normalisation never yields a delimiter.
\<close>

definition accept_all :: urllib where
  "accept_all = \<lparr>check_bracketed_host = (\<lambda>h. True), nfkc_rejects = (\<lambda>n. False)\<rparr>"

text \<open>
  A line that the scan takes for a parameter name when it reaches it; \<open>typed_in ls n ty\<close>:
  among the lines \<open>ls\<close> there is a parameter-name line for the name \<open>n\<close> that is
  followed, before any other parameter-name line, by a line that is the type token \<open>ty\<close>;
  and the invariant of the scan over the lines seen so far.
\<close>

definition name_line :: "string \<Rightarrow> bool" where
  "name_line l = (l \<notin> set type_keywords \<and> looks_like_param_name l)"

definition typed_in :: "string list \<Rightarrow> string \<Rightarrow> string \<Rightarrow> bool" where
  "typed_in ls n ty =
     (\<exists>pre c mid t post.
        ls = pre @ c # mid @ t # post
        \<and> name_line (strip c) \<and> strip (remove_all ''*required'' (strip c)) = n
        \<and> strip t = ty \<and> ty \<in> set type_keywords
        \<and> (\<forall>m\<in>set mid. \<not> name_line (strip m)))"

definition pending :: "string list \<Rightarrow> string \<Rightarrow> string option \<Rightarrow> bool" where
  "pending seen cur tyo =
     (\<exists>pre c rest.
        seen = pre @ c # rest \<and> strip c = cur \<and> name_line cur
        \<and> (\<forall>m\<in>set rest. \<not> name_line (strip m))
        \<and> (case tyo of
              None \<Rightarrow> True
            | Some ty \<Rightarrow> (\<exists>mid t post. rest = mid @ t # post \<and> strip t = ty
                                      \<and> ty \<in> set type_keywords)))"

definition pending_inv :: "string list \<Rightarrow> scan \<Rightarrow> bool" where
  "pending_inv seen st =
     ((\<forall>(n, e) \<in> set (parameters st). typed_in seen n (ptype e))
      \<and> (case current_param st of
            None \<Rightarrow> param_type st = None
          | Some cur \<Rightarrow> pending seen cur (param_type st)))"

text \<open>
  The string that \<open>normalize_server_url\<close> hands to \<open>urlsplit\<close> (the source's lines
  38 to 40), the network location that \<open>urlsplit\<close> finds in a string, and the condition
  under which \<open>urlsplit\<close> raises ValueError for a network location: an unmatched square
  bracket, a bracketed host that \<open>_check_bracketed_host\<close> refuses, or a non-ASCII netloc
  that \<open>_checknetloc\<close> refuses.
\<close>

definition url_for_split :: "string \<Rightarrow> string" where
  "url_for_split x = (if startswith (strip x) ''/server/'' then BASE_URL @ strip x else strip x)"

definition url_netloc :: "string \<Rightarrow> string" where
  "url_netloc u = fst (split_authority (snd (split_scheme (strip_unsafe u))))"

definition netloc_rejected :: "urllib \<Rightarrow> string \<Rightarrow> bool" where
  "netloc_rejected lib n =
     ((CHR ''['' \<in> set n \<and> CHR '']'' \<notin> set n)
      \<or> (CHR '']'' \<in> set n \<and> CHR ''['' \<notin> set n)
      \<or> (CHR ''['' \<in> set n \<and> CHR '']'' \<in> set n \<and> \<not> check_bracketed_host lib (bracketed_host n))
      \<or> (n \<noteq> [] \<and> \<not> list_all isascii_char n \<and> nfkc_rejects lib n))"

section \<open>Properties of \<open>normalize_server\<close>\<close>

lemma normalize_tools_eq:
  "normalize_tools raw = map normalize_tool [tool. PDict tool \<leftarrow> raw]"
  by (induction raw rule: normalize_tools.induct) simp_all

text \<open>
  Claim C10. For every input dict, the record returned by \<open>normalize_server\<close> carries
  as \<open>tools\<close> the dict entries of the input's \<open>tools\<close> list (none when that field is
  missing or not a list), each reduced to exactly the fields \<open>name\<close>, \<open>description\<close> and
  \<open>inputSchema\<close> with the defaults \<open>""\<close>, \<open>""\<close> and \<open>{}\<close>, and as \<open>total_tools\<close>
  the length of that list, whatever count the input declared.
\<close>

theorem normalize_server_total_tools:
  "map_of (normalize_server server) ''tools'' =
     Some (PList (map (\<lambda>tool. PDict
        [(''name'', dict_get tool ''name'' (PStr [])),
         (''description'', dict_get tool ''description'' (PStr [])),
         (''inputSchema'', dict_get tool ''inputSchema'' (PDict []))]) (surviving_tools server)))
   \<and> map_of (normalize_server server) ''total_tools'' =
         Some (PInt (int (length (surviving_tools server))))
   \<and> py_len (dict_get (normalize_server server) ''tools'' PNone) =
         Inr (length (surviving_tools server))"
  by (simp add: normalize_server_def Let_def normalize_tools_eq surviving_tools_def dict_get_def
      normalize_tool_def split: option.splits pyval.splits)

section \<open>Properties of the outcome classification\<close>

text \<open>
  Taken alone, the rule of \<open>classify\<close> is the three-way rule: on a record whose
  \<open>total_tools\<close> is the integer \<open>d\<close> and whose \<open>tools\<close> is the list \<open>T\<close>.
\<close>

lemma classify_rule:
  "classify [(''total_tools'', PInt d), (''tools'', PList T)] =
     Inr (if int (length T) = d \<and> d > 0 then ''SUCCESS''
          else if length T > 0 \<and> int (length T) \<noteq> d then ''PARTIAL''
          else ''FAILED'')"
  by (auto simp add: classify_def dict_get_def)

text \<open>
  Both callers apply the rule to the record that \<open>normalize_server\<close> returned, in which
  \<open>total_tools\<close> has been overwritten with the number of tools: the outcome is then
  never Partial, and the \<open>partial\<close> counter never moves.
\<close>

lemma normalize_server_fields:
  "dict_get (normalize_server r) ''tools'' dflt = PList (map normalize_tool (surviving_tools r))"
  "dict_get (normalize_server r) ''total_tools'' dflt = PInt (int (length (surviving_tools r)))"
  by (simp_all add: normalize_server_def Let_def normalize_tools_eq surviving_tools_def dict_get_def
      split: option.splits pyval.splits)

lemma classify_normalized:
  "classify (normalize_server r) =
     Inr (if length (surviving_tools r) > 0 then ''SUCCESS'' else ''FAILED'')"
  by (simp add: classify_def normalize_server_fields)

lemma rescrape_status_never_partial: "rescrape_status r \<noteq> Inr ''PARTIAL''"
  by (simp add: rescrape_status_def classify_normalized)

lemma record_scraped_never_partial:
  "record_scraped st r = Inr (st', r') \<Longrightarrow> partial st' = partial st"
  by (auto simp add: record_scraped_def normalize_server_fields Let_def split: if_splits)

text \<open>
  Claim C1. A scraped record with declared tool count 5 and 2 extracted tools is to be
  classified Partial. The scraper counts the record returned by \<open>scrape_server_page\<close>
  with \<open>total_tools = 5\<close> and two tools as a success (the \<open>partial\<close> counter stays at 0),
  and \<open>rescrape\<close> reports SUCCESS for it.
\<close>

theorem declared_5_extracted_2_counted_success:
  "record_scraped
     \<lparr>total_servers = 1, scraped = 0, success = 0, partial = 0, failed = 0, total_tools = 0\<rparr>
     [(''server_name'', PStr ''Demo''),
      (''server_url'', PStr ''https://smithery.ai/server/demo''),
      (''connection_url'', PStr ''https://server.smithery.ai/demo/mcp''),
      (''homepage'', PStr []),
      (''source_code'', PStr []),
      (''authentication_method'', PStr ''OAuth''),
      (''description'', PStr []),
      (''total_tools'', PInt 5),
      (''tools'', PList [PDict [(''name'', PStr ''fetch'')], PDict [(''name'', PStr ''search'')]])]
   = Inr (\<lparr>total_servers = 1, scraped = 1, success = 1, partial = 0, failed = 0, total_tools = 2\<rparr>,
      [(''server_name'', PStr ''Demo''),
       (''server_url'', PStr ''https://smithery.ai/server/demo''),
       (''connection_url'', PStr ''https://server.smithery.ai/demo/mcp''),
       (''homepage'', PStr []),
       (''source_code'', PStr []),
       (''authentication_method'', PStr ''OAuth''),
       (''description'', PStr []),
       (''total_tools'', PInt 2),
       (''tools'', PList
          [PDict [(''name'', PStr ''fetch''), (''description'', PStr []), (''inputSchema'', PDict [])],
           PDict [(''name'', PStr ''search''), (''description'', PStr []), (''inputSchema'', PDict [])]])])
   \<and> rescrape_status
        [(''server_name'', PStr ''Demo''),
         (''server_url'', PStr ''https://smithery.ai/server/demo''),
         (''connection_url'', PStr ''https://server.smithery.ai/demo/mcp''),
         (''homepage'', PStr []),
         (''source_code'', PStr []),
         (''authentication_method'', PStr ''OAuth''),
         (''description'', PStr []),
         (''total_tools'', PInt 5),
         (''tools'', PList [PDict [(''name'', PStr ''fetch'')], PDict [(''name'', PStr ''search'')]])]
      = Inr ''SUCCESS''"
  by (simp add: record_scraped_def rescrape_status_def classify_def normalize_server_def
      normalize_tool_def dict_get_def)

section \<open>Properties of the parameter parser\<close>

text \<open>
  Claim C3. Scanning the text
  \<open>"paramA*required\nstring\nDoes X\n\nparamB\ninteger\nDoes Y\n"\<close> from position 0
  yields a mapping in which \<open>paramA\<close> has type \<open>string\<close> and description \<open>Does X\<close> and
  \<open>paramB\<close> has type \<open>integer\<close> and description \<open>Does Y\<close>, and the list of required names
  \<open>["paramA"]\<close>.
\<close>

theorem parse_parameters_example:
  "parse_parameters_from_text
     ''paramA*required\<newline>string\<newline>Does X\<newline>\<newline>paramB\<newline>integer\<newline>Does Y\<newline>'' 0
   = ([(''paramA'', \<lparr>ptype = ''string'', pdescription = ''Does X''\<rparr>),
       (''paramB'', \<lparr>ptype = ''integer'', pdescription = ''Does Y''\<rparr>)],
      [''paramA''])"
  by code_simp

lemma in_set_updateD:
  "(a, b) \<in> set (AList.update k v al) \<Longrightarrow> (a, b) = (k, v) \<or> (a, b) \<in> set al"
  by (induction al) (auto split: if_splits)

lemma save_param_inv: "scan_inv st \<Longrightarrow> scan_inv (save_param st)"
  unfolding scan_inv_def save_param_def Let_def
  by (auto simp: dom_update split: option.splits dest!: in_set_updateD)

lemma scan_line_inv: "scan_inv st \<Longrightarrow> scan_line st raw = Some st' \<Longrightarrow> scan_inv st'"
  using save_param_inv[of st]
  by (auto simp: scan_line_def Let_def scan_inv_def split: if_splits)

lemma scan_lines_inv: "scan_inv st \<Longrightarrow> scan_inv (scan_lines st ls)"
  by (induction ls arbitrary: st) (auto split: option.splits dest: scan_line_inv)

text \<open>
  Every stored entry stems from a parameter-name line that a type line follows.
\<close>

lemma typed_in_append:
  assumes "typed_in ls n ty"
  shows "typed_in (ls @ extra) n ty"
proof -
  from assms obtain pre c mid t post where
    "ls = pre @ c # mid @ t # post" and rest: "name_line (strip c)"
    "strip (remove_all ''*required'' (strip c)) = n" "strip t = ty" "ty \<in> set type_keywords"
    "\<forall>m\<in>set mid. \<not> name_line (strip m)"
    unfolding typed_in_def by blast
  then have "ls @ extra = pre @ c # mid @ t # (post @ extra)" by simp
  with rest show ?thesis unfolding typed_in_def by blast
qed

lemma pending_typed:
  assumes "pending seen cur (Some ty)"
  shows "typed_in seen (strip (remove_all ''*required'' cur)) ty"
proof -
  from assms obtain pre c rest mid t post where
    d: "seen = pre @ c # rest" "strip c = cur" "name_line cur"
       "\<forall>m\<in>set rest. \<not> name_line (strip m)"
       "rest = mid @ t # post" "strip t = ty" "ty \<in> set type_keywords"
    unfolding pending_def by auto
  then have "seen = pre @ c # mid @ t # post" "\<forall>m\<in>set mid. \<not> name_line (strip m)"
    by auto
  with d show ?thesis
    unfolding typed_in_def by blast
qed

lemma pending_ext:
  assumes "pending seen cur tyo" "\<not> name_line (strip raw)"
  shows "pending (seen @ [raw]) cur tyo"
proof -
  from assms(1) obtain pre c rest where
    d: "seen = pre @ c # rest" "strip c = cur" "name_line cur"
       "\<forall>m\<in>set rest. \<not> name_line (strip m)"
    and t: "case tyo of None \<Rightarrow> True
          | Some ty \<Rightarrow> (\<exists>mid t post. rest = mid @ t # post \<and> strip t = ty \<and> ty \<in> set type_keywords)"
    unfolding pending_def by blast
  have e: "seen @ [raw] = pre @ c # (rest @ [raw])" using d(1) by simp
  have n: "\<forall>m\<in>set (rest @ [raw]). \<not> name_line (strip m)" using d(4) assms(2) by simp
  have t': "case tyo of None \<Rightarrow> True
          | Some ty \<Rightarrow> (\<exists>mid t post. rest @ [raw] = mid @ t # post \<and> strip t = ty \<and> ty \<in> set type_keywords)"
  proof (cases tyo)
    case None then show ?thesis by simp
  next
    case (Some ty)
    with t obtain mid t post where "rest = mid @ t # post" "strip t = ty" "ty \<in> set type_keywords"
      by auto
    moreover from this have "rest @ [raw] = mid @ t # (post @ [raw])" by simp
    ultimately show ?thesis using Some by auto
  qed
  show ?thesis unfolding pending_def using e d(2,3) n t' by blast
qed

lemma pending_set_type:
  assumes "pending seen cur None" "strip raw = ty" "ty \<in> set type_keywords"
  shows "pending (seen @ [raw]) cur (Some ty)"
proof -
  from assms(1) obtain pre c rest where
    d: "seen = pre @ c # rest" "strip c = cur" "name_line cur"
       "\<forall>m\<in>set rest. \<not> name_line (strip m)"
    unfolding pending_def by blast
  have e: "seen @ [raw] = pre @ c # (rest @ [raw])" using d(1) by simp
  have "\<not> name_line (strip raw)" using assms(2,3) by (simp add: name_line_def)
  then have n: "\<forall>m\<in>set (rest @ [raw]). \<not> name_line (strip m)" using d(4) by simp
  have t: "\<exists>mid t post. rest @ [raw] = mid @ t # post \<and> strip t = ty \<and> ty \<in> set type_keywords"
    using assms(2,3) by blast
  then have t': "case Some ty of None \<Rightarrow> True
          | Some ty \<Rightarrow> (\<exists>mid t post. rest @ [raw] = mid @ t # post \<and> strip t = ty \<and> ty \<in> set type_keywords)"
    by simp
  show ?thesis unfolding pending_def using e d(2,3) n t' by blast
qed

lemma pending_new:
  assumes "name_line (strip raw)"
  shows "pending (seen @ [raw]) (strip raw) None"
proof -
  have "seen @ [raw] = seen @ raw # []" by simp
  moreover have "\<forall>m\<in>set ([] :: string list). \<not> name_line (strip m)" by simp
  ultimately show ?thesis unfolding pending_def using assms by (metis option.simps(4))
qed

lemma save_param_typed:
  assumes "pending_inv seen st"
  shows "\<forall>(n, e) \<in> set (parameters (save_param st)). typed_in seen n (ptype e)"
proof -
  from assms have old: "\<forall>(n, e) \<in> set (parameters st). typed_in seen n (ptype e)"
    by (simp add: pending_inv_def)
  show ?thesis
  proof (cases "current_param st")
    case None
    with old show ?thesis by (simp add: save_param_def)
  next
    case cur: (Some cur)
    show ?thesis
    proof (cases "param_type st")
      case None
      with cur old show ?thesis by (simp add: save_param_def)
    next
      case (Some ty)
      with cur assms have "pending seen cur (Some ty)"
        by (simp add: pending_inv_def)
      then have "typed_in seen (strip (remove_all ''*required'' cur)) ty"
        by (rule pending_typed)
      with old cur Some show ?thesis
        by (auto simp: save_param_def Let_def dest!: in_set_updateD)
    qed
  qed
qed

lemma pending_inv_ext:
  assumes "pending_inv seen st" "\<not> name_line (strip raw)"
    "parameters st' = parameters st" "current_param st' = current_param st"
    "param_type st' = param_type st"
  shows "pending_inv (seen @ [raw]) st'"
proof -
  have "\<forall>(n, e) \<in> set (parameters st'). typed_in (seen @ [raw]) n (ptype e)"
    using assms(1,3) by (auto simp: pending_inv_def intro: typed_in_append)
  moreover have "case current_param st' of None \<Rightarrow> param_type st' = None
                 | Some cur \<Rightarrow> pending (seen @ [raw]) cur (param_type st')"
    using assms by (auto simp: pending_inv_def split: option.splits intro: pending_ext)
  ultimately show ?thesis by (simp add: pending_inv_def)
qed

lemma not_name_line_empty: "\<not> name_line []"
  by (simp add: name_line_def looks_like_param_name_def)

lemma scan_line_pending:
  assumes inv: "pending_inv seen st" and step: "scan_line st raw = Some st'"
  shows "pending_inv (seen @ [raw]) st'"
proof -
  let ?line = "strip raw"
  consider (blank) "?line = []" "st' = st"
    | (type) "?line \<noteq> []" "?line \<in> set type_keywords"
        "st' = (if current_param st \<noteq> None \<and> param_type st = None
                then st\<lparr>param_type := Some ?line, desc_line_count := 0\<rparr> else st)"
    | (name) "?line \<notin> set type_keywords" "looks_like_param_name ?line"
        "st' = (save_param st)\<lparr>current_param := Some ?line, param_type := None,
                                 param_desc := [], desc_line_count := 0\<rparr>"
    | (other) "\<not> looks_like_param_name ?line"
        "parameters st' = parameters st" "current_param st' = current_param st"
        "param_type st' = param_type st"
    using step by (auto simp: scan_line_def Let_def split: if_splits)
  then show ?thesis
  proof cases
    case blank
    then show ?thesis using inv not_name_line_empty by (intro pending_inv_ext[OF inv]) simp_all
  next
    case type
    have nn: "\<not> name_line ?line" using type(2) by (simp add: name_line_def)
    show ?thesis
    proof (cases "current_param st \<noteq> None \<and> param_type st = None")
      case False
      have "st' = st" unfolding type(3) using False by (rule if_not_P)
      then show ?thesis using nn by (intro pending_inv_ext[OF inv]) simp_all
    next
      case True
      then obtain cur where cur: "current_param st = Some cur" "param_type st = None" by auto
      with inv have "pending seen cur None" by (simp add: pending_inv_def)
      then have "pending (seen @ [raw]) cur (Some ?line)"
        using type(2) by (intro pending_set_type) simp_all
      moreover have "\<forall>(n, e) \<in> set (parameters st). typed_in (seen @ [raw]) n (ptype e)"
        using inv by (auto simp: pending_inv_def intro: typed_in_append)
      ultimately show ?thesis
        using True type(3) cur by (simp add: pending_inv_def)
    qed
  next
    case name
    have "name_line ?line" using name(1,2) by (simp add: name_line_def)
    then have "pending (seen @ [raw]) ?line None" by (rule pending_new)
    moreover have "\<forall>(n, e) \<in> set (parameters (save_param st)). typed_in (seen @ [raw]) n (ptype e)"
      using save_param_typed[OF inv] by (auto intro: typed_in_append)
    ultimately show ?thesis
      using name(3) by (simp add: pending_inv_def)
  next
    case other
    then have "\<not> name_line ?line" by (simp add: name_line_def)
    then show ?thesis using other by (intro pending_inv_ext[OF inv]) simp_all
  qed
qed

lemma scan_lines_pending:
  "pending_inv seen st \<Longrightarrow>
     \<exists>seen' rem. seen @ ls = seen' @ rem \<and> pending_inv seen' (scan_lines st ls)"
proof (induction ls arbitrary: seen st)
  case Nil
  then show ?case by auto
next
  case (Cons raw ls)
  show ?case
  proof (cases "scan_line st raw")
    case None
    with Cons.prems show ?thesis by auto
  next
    case (Some st')
    with Cons.prems have "pending_inv (seen @ [raw]) st'" by (rule_tac scan_line_pending)
    from Cons.IH[OF this] obtain seen' rem where
      "(seen @ [raw]) @ ls = seen' @ rem" "pending_inv seen' (scan_lines st' ls)" by blast
    with Some show ?thesis by auto
  qed
qed

lemma parse_parameters_typed_in:
  "\<forall>(n, e) \<in> set (fst (parse_parameters_from_text text start_pos)).
     typed_in (split_on (CHR 0x0A) (slice_from text start_pos)) n (ptype e)"
proof -
  let ?init = "\<lparr>parameters = [], required_params = [], current_param = None,
                param_type = None, param_desc = [], desc_line_count = 0\<rparr>"
  let ?lines = "split_on (CHR 0x0A) (slice_from text start_pos)"
  have "pending_inv [] ?init" by (simp add: pending_inv_def)
  from scan_lines_pending[OF this, of ?lines] obtain seen' rem where
    l: "?lines = seen' @ rem" and inv: "pending_inv seen' (scan_lines ?init ?lines)" by auto
  have "\<forall>(n, e) \<in> set (parameters (save_param (scan_lines ?init ?lines))). typed_in seen' n (ptype e)"
    using inv by (rule save_param_typed)
  then have "\<forall>(n, e) \<in> set (parameters (save_param (scan_lines ?init ?lines))). typed_in ?lines n (ptype e)"
    unfolding l by (auto intro: typed_in_append)
  then show ?thesis
    by (simp add: parse_parameters_from_text_def Let_def)
qed

lemma typed_in_needs_type_line:
  "typed_in ls n ty \<Longrightarrow> \<exists>t\<in>set ls. strip t \<in> set type_keywords"
  unfolding typed_in_def by auto

lemma parse_no_type_line:
  assumes "\<forall>l\<in>set (split_on (CHR 0x0A) (slice_from text start_pos)). strip l \<notin> set type_keywords"
  shows "fst (parse_parameters_from_text text start_pos) = []"
proof (cases "fst (parse_parameters_from_text text start_pos)")
  case Nil then show ?thesis .
next
  case (Cons a tail)
  obtain n e where "a = (n, e)" by (cases a)
  with Cons have "typed_in (split_on (CHR 0x0A) (slice_from text start_pos)) n (ptype e)"
    using parse_parameters_typed_in[of "text" start_pos] by auto
  with assms show ?thesis using typed_in_needs_type_line by blast
qed

text \<open>
  Claim C7. For every text and start position, every entry of the mapping returned by
  \<open>parse_parameters_from_text\<close> has as type one of the six tokens \<open>string\<close>, \<open>integer\<close>,
  \<open>boolean\<close>, \<open>object\<close>, \<open>array\<close>, \<open>number\<close>, and every name of the returned required
  list is a key of the mapping. A parameter name seen without a following type line is
  never finalized: every entry \<open>(n, e)\<close> of the mapping comes from a parameter-name line
  for \<open>n\<close> that is followed, before the next parameter-name line, by a line that is
  the token \<open>ptype e\<close>; in particular a text without any type line yields the empty
  mapping.
\<close>

theorem parse_parameters_typed_and_required:
  "(\<forall>(n, e) \<in> set (fst (parse_parameters_from_text text start_pos)).
       ptype e \<in> {''string'', ''integer'', ''boolean'', ''object'', ''array'', ''number''})
   \<and> set (snd (parse_parameters_from_text text start_pos))
       \<subseteq> fst ` set (fst (parse_parameters_from_text text start_pos))
   \<and> (\<forall>(n, e) \<in> set (fst (parse_parameters_from_text text start_pos)).
         typed_in (split_on (CHR 0x0A) (slice_from text start_pos)) n (ptype e))
   \<and> ((\<forall>l \<in> set (split_on (CHR 0x0A) (slice_from text start_pos)).
          strip l \<notin> {''string'', ''integer'', ''boolean'', ''object'', ''array'', ''number''})
       \<longrightarrow> fst (parse_parameters_from_text text start_pos) = [])"
proof -
  let ?init = "\<lparr>parameters = [], required_params = [], current_param = None,
                param_type = None, param_desc = [], desc_line_count = 0\<rparr>"
  have "scan_inv ?init"
    by (simp add: scan_inv_def)
  then have "scan_inv (save_param (scan_lines ?init (split_on (CHR 0x0A) (slice_from text start_pos))))"
    by (intro save_param_inv scan_lines_inv)
  then have first: "(\<forall>(n, e) \<in> set (fst (parse_parameters_from_text text start_pos)).
       ptype e \<in> {''string'', ''integer'', ''boolean'', ''object'', ''array'', ''number''})
   \<and> set (snd (parse_parameters_from_text text start_pos))
       \<subseteq> fst ` set (fst (parse_parameters_from_text text start_pos))"
    by (simp add: parse_parameters_from_text_def Let_def scan_inv_def type_keywords_def)
  have none: "fst (parse_parameters_from_text text start_pos) = []"
    if "\<forall>l \<in> set (split_on (CHR 0x0A) (slice_from text start_pos)).
          strip l \<notin> {''string'', ''integer'', ''boolean'', ''object'', ''array'', ''number''}"
    using that parse_no_type_line[of "text" start_pos] by (simp add: type_keywords_def)
  show ?thesis
    using first parse_parameters_typed_in[of "text" start_pos] none by blast
qed

theorem parse_parameters_typed_and_required_witness:
  "parse_parameters_from_text ''limit\<newline>query*required\<newline>string\<newline>Search text'' 0
     = ([(''query'', \<lparr>ptype = ''string'', pdescription = ''Search text''\<rparr>)], [''query''])
   \<and> list_all (\<lambda>(n, e). ptype e \<in> {''string'', ''integer'', ''boolean'', ''object'', ''array'', ''number''})
        (fst (parse_parameters_from_text ''limit\<newline>query*required\<newline>string\<newline>Search text'' 0))
   \<and> set (snd (parse_parameters_from_text ''limit\<newline>query*required\<newline>string\<newline>Search text'' 0))
       \<subseteq> fst ` set (fst (parse_parameters_from_text
                           ''limit\<newline>query*required\<newline>string\<newline>Search text'' 0))
   \<and> typed_in (split_on (CHR 0x0A)
                 (slice_from ''limit\<newline>query*required\<newline>string\<newline>Search text'' 0))
        ''query'' ''string''
   \<and> split_on (CHR 0x0A) (slice_from ''verbose\<newline>Prints more output'' 0)
        = [''verbose'', ''Prints more output'']
   \<and> fst (parse_parameters_from_text ''verbose\<newline>Prints more output'' 0) = []"
proof -
  have p: "parse_parameters_from_text ''limit\<newline>query*required\<newline>string\<newline>Search text'' 0
     = ([(''query'', \<lparr>ptype = ''string'', pdescription = ''Search text''\<rparr>)], [''query''])"
    by code_simp
  have ls: "split_on (CHR 0x0A) (slice_from ''verbose\<newline>Prints more output'' 0)
        = [''verbose'', ''Prints more output'']"
    by code_simp
  have s1: "strip ''verbose'' = ''verbose''"
    by code_simp
  have s2: "strip ''Prints more output'' = ''Prints more output''"
    by code_simp
  have e: "fst (parse_parameters_from_text ''verbose\<newline>Prints more output'' 0) = []"
    using parse_parameters_typed_and_required [of "''verbose\<newline>Prints more output''" 0]
    by (simp add: ls s1 s2)
  from p e ls show ?thesis
    using parse_parameters_typed_and_required
      [of "''limit\<newline>query*required\<newline>string\<newline>Search text''" 0]
    by simp
qed

section \<open>Properties of \<open>find_missing_servers\<close>\<close>

lemma urlsplit_error: "urlsplit lib u = Inl e \<Longrightarrow> e = ValueError"
  by (auto simp: urlsplit_def Let_def split_def split: if_splits)




section \<open>Properties of listing discovery\<close>

text \<open>
  The sequential loop, entered at page \<open>p\<close> with no page limit, collects the pages from
  \<open>p\<close> up to (and without) the stopping page \<open>k\<close>: the first empty page, or 101 when
  the pages up to 100 are all non-empty.
\<close>

lemma crawl_sequential_stop:
  assumes "max_pages = None" "p \<le> k" "p \<le> 100" "k \<le> 101"
      and "\<forall>q. p \<le> q \<and> q < k \<longrightarrow> page_urls (fetch q) \<noteq> {}"
      and "k \<le> 100 \<longrightarrow> page_urls (fetch k) = {}"
  shows "crawl_sequential fetch max_pages urls p = urls \<union> (\<Union>q\<in>{p..<k}. page_urls (fetch q))"
  using assms
proof (induction fetch max_pages urls p rule: crawl_sequential.induct)
  case (1 fetch max_pages urls page)
  show ?case
  proof (cases "page = k")
    case True
    with "1.prems" show ?thesis
      by (subst crawl_sequential.simps) (simp del: crawl_sequential.simps)
  next
    case False
    with "1.prems" have lt: "page < k" and ne: "page_urls (fetch page) \<noteq> {}" by auto
    have ivl: "{page..<k} = insert page {page + 1..<k}" using lt by auto
    show ?thesis
    proof (cases "page + 1 > 100")
      case True
      with "1.prems" lt have "k = page + 1" by simp
      moreover have "{page..<page + 1} = {page}" by auto
      ultimately show ?thesis using ne True "1.prems"(1)
        by (subst crawl_sequential.simps) (simp del: crawl_sequential.simps)
    next
      case below: False
      have "crawl_sequential fetch max_pages (urls \<union> page_urls (fetch page)) (page + 1)
          = (urls \<union> page_urls (fetch page)) \<union> (\<Union>q\<in>{page + 1..<k}. page_urls (fetch q))"
        using ne below "1.prems" lt by (intro "1.IH") auto
      with ne below "1.prems"(1) show ?thesis
        by (subst crawl_sequential.simps) (simp add: ivl Un_assoc del: crawl_sequential.simps)
    qed
  qed
qed

text \<open>
  Claim C8. When page 1 yields no total-page indicator and no \<open>max_pages\<close> is given,
  discovery crawls sequentially from page 2 and stops at the first page that returns no
  URLs, or once the page number exceeds 100: with \<open>k\<close> the stopping page, the result is
  the sorted union of the pages 1 to \<open>k - 1\<close>. In particular, when pages 2 and 3 are
  non-empty and page 4 is empty, the result is the sorted union of the pages 1, 2 and 3.
\<close>

theorem fetch_current_server_urls_sequential:
  assumes "detected_total_pages (fetch 1) = None \<or> detected_total_pages (fetch 1) = Some 0"
  shows "(2 \<le> k \<and> k \<le> 101 \<and> (\<forall>q. 2 \<le> q \<and> q < k \<longrightarrow> page_urls (fetch q) \<noteq> {})
            \<and> (k \<le> 100 \<longrightarrow> page_urls (fetch k) = {})
          \<longrightarrow> fetch_current_server_urls fetch None
                = sorted_list_of_set (\<Union>q\<in>{1..<k}. page_urls (fetch q)))
       \<and> (page_urls (fetch 2) \<noteq> {} \<and> page_urls (fetch 3) \<noteq> {} \<and> page_urls (fetch 4) = {}
          \<longrightarrow> fetch_current_server_urls fetch None
                = sorted_list_of_set (page_urls (fetch 1) \<union> page_urls (fetch 2) \<union> page_urls (fetch 3)))"
proof -
  have run: "fetch_current_server_urls fetch None
             = sorted_list_of_set (crawl_sequential fetch None (page_urls (fetch 1)) 2)"
    using assms by (auto simp: fetch_current_server_urls_def Let_def simp del: crawl_sequential.simps)
  have gen: "fetch_current_server_urls fetch None
                = sorted_list_of_set (\<Union>q\<in>{1..<k}. page_urls (fetch q))"
    if "2 \<le> k" "k \<le> 101" "\<forall>q. 2 \<le> q \<and> q < k \<longrightarrow> page_urls (fetch q) \<noteq> {}"
       "k \<le> 100 \<longrightarrow> page_urls (fetch k) = {}" for k
  proof -
    have "{1..<k} = insert 1 {2..<k}" using that(1) by auto
    then show ?thesis
      using crawl_sequential_stop[of None 2 k fetch "page_urls (fetch 1)"] that
      by (simp add: run del: crawl_sequential.simps)
  qed
  have three: "{1..<4::int} = {1, 2, 3}" by auto
  have two: "\<And>q::int. 2 \<le> q \<and> q < 4 \<Longrightarrow> q = 2 \<or> q = 3" by auto
  have part: "fetch_current_server_urls fetch None
                = sorted_list_of_set (page_urls (fetch 1) \<union> page_urls (fetch 2) \<union> page_urls (fetch 3))"
    if "page_urls (fetch 2) \<noteq> {}" "page_urls (fetch 3) \<noteq> {}" "page_urls (fetch 4) = {}"
  proof -
    have "\<forall>q. 2 \<le> q \<and> q < 4 \<longrightarrow> page_urls (fetch q) \<noteq> {}"
      using two that by blast
    then show ?thesis
      using gen[of 4] that by (simp add: three Un_assoc del: crawl_sequential.simps)
  qed
  show ?thesis using gen part by blast
qed

theorem fetch_current_server_urls_sequential_witness:
  "fetch_current_server_urls
     (\<lambda>p. \<lparr>page_urls =
              (if p = 1 then {''https://smithery.ai/server/c'', ''https://smithery.ai/server/a''}
               else if p = 2 then {''https://smithery.ai/server/b'', ''https://smithery.ai/server/a''}
               else if p = 3 then {''https://smithery.ai/server/d''}
               else {}),
            detected_total_pages = None, page_error = None\<rparr>)
     None
   = [''https://smithery.ai/server/a'', ''https://smithery.ai/server/b'',
      ''https://smithery.ai/server/c'', ''https://smithery.ai/server/d'']"
proof -
  have sorted: "sorted_list_of_set
       ({''https://smithery.ai/server/c'', ''https://smithery.ai/server/a''}
        \<union> {''https://smithery.ai/server/b'', ''https://smithery.ai/server/a''}
        \<union> {''https://smithery.ai/server/d''})
     = [''https://smithery.ai/server/a'', ''https://smithery.ai/server/b'',
        ''https://smithery.ai/server/c'', ''https://smithery.ai/server/d'']"
    by code_simp
  have "fetch_current_server_urls
     (\<lambda>p. \<lparr>page_urls =
              (if p = 1 then {''https://smithery.ai/server/c'', ''https://smithery.ai/server/a''}
               else if p = 2 then {''https://smithery.ai/server/b'', ''https://smithery.ai/server/a''}
               else if p = 3 then {''https://smithery.ai/server/d''}
               else {}),
            detected_total_pages = None, page_error = None\<rparr>)
     None
   = sorted_list_of_set
       ({''https://smithery.ai/server/c'', ''https://smithery.ai/server/a''}
        \<union> {''https://smithery.ai/server/b'', ''https://smithery.ai/server/a''}
        \<union> {''https://smithery.ai/server/d''})"
    using fetch_current_server_urls_sequential
      [of "(\<lambda>p. \<lparr>page_urls =
              (if p = 1 then {''https://smithery.ai/server/c'', ''https://smithery.ai/server/a''}
               else if p = 2 then {''https://smithery.ai/server/b'', ''https://smithery.ai/server/a''}
               else if p = 3 then {''https://smithery.ai/server/d''}
               else {}),
            detected_total_pages = None, page_error = None\<rparr>)" 4]
    by simp
  then show ?thesis
    by (simp only: sorted)
qed

section \<open>Properties of \<open>save_to_json\<close>\<close>

text \<open>
  The replay keeps exactly the non-blank lines that the decoder accepts, in order.
\<close>

lemma replay_jsonl_eq:
  "replay_jsonl json_loads file_lines =
     List.map_filter json_loads (filter (\<lambda>line. line \<noteq> []) (map strip file_lines))"
  by (induction file_lines) (simp_all add: Let_def List.map_filter_simps split: option.splits)

text \<open>
  Claim C9. The merged result of the in-memory records and the replayed log is to
  contain no two records with the same \<open>server_url\<close>. A server that was scraped twice is
  twice in memory and twice in the log; \<open>save_to_json\<close> then writes it twice. It also
  writes twice a record that stands twice in the log and not in memory.
\<close>

theorem save_to_json_keeps_duplicate_urls:
  \<open>(let line = ''{"server_name": "Demo", "server_url": "https://smithery.ai/server/demo", "connection_url": "https://server.smithery.ai/demo/mcp", "homepage": "", "source_code": "", "authentication_method": "OAuth", "description": "", "total_tools": 0, "tools": []}'';
        server = [(''server_name'', PStr ''Demo''),
                  (''server_url'', PStr ''https://smithery.ai/server/demo''),
                  (''connection_url'', PStr ''https://server.smithery.ai/demo/mcp''),
                  (''homepage'', PStr []),
                  (''source_code'', PStr []),
                  (''authentication_method'', PStr ''OAuth''),
                  (''description'', PStr []),
                  (''total_tools'', PInt 0),
                  (''tools'', PList [])];
        json_loads = (\<lambda>s. if s = line then Some (PDict server) else None)
    in save_to_json json_loads [PDict server, PDict server]
         (Some [line @ ''\<newline>'', line @ ''\<newline>'']) = Inr [server, server]
       \<and> save_to_json json_loads []
         (Some [line @ ''\<newline>'', line @ ''\<newline>'']) = Inr [server, server])\<close>
  by (simp add: Let_def save_to_json_def strip_def isspace_def dict_item_def
      normalize_server_def dict_get_def)

section \<open>Properties of URL normalisation\<close>

subsection \<open>Characters\<close>

lemma scheme_char_range:
  "c \<in> set scheme_chars \<Longrightarrow> 
    (let n = (of_char c :: nat) in (97 \<le> n \<and> n \<le> 122) \<or> (65 \<le> n \<and> n \<le> 90) \<or> (48 \<le> n \<and> n \<le> 57) \<or> n = 43 \<or> n = 45 \<or> n = 46)"
  unfolding scheme_chars_def
  by (simp only: set_simps insert_iff empty_iff) (elim disjE FalseE; simp)

lemma lower_scheme_char:
  "c \<in> set scheme_chars \<Longrightarrow> lower_char c \<in> set scheme_chars"
  unfolding scheme_chars_def
  by (simp only: set_simps insert_iff empty_iff) (elim disjE FalseE; simp add: lower_char_def char_of_eq_iff)

lemma lower_char_idem: "lower_char (lower_char c) = lower_char c"
  by (auto simp: lower_char_def Let_def)

lemma scheme_char_facts:
  assumes "c \<in> set scheme_chars"
  shows "\<not> unsafe_url_byte c" "c \<noteq> CHR '':''" "\<not> isspace c" "c \<noteq> CHR ''/''"
  using scheme_char_range[OF assms]
  by (auto simp: unsafe_url_byte_def isspace_def Let_def)

lemma ascii_alpha_lower: "ascii_alpha c \<Longrightarrow> ascii_alpha (lower_char c)"
  by (auto simp: ascii_alpha_def lower_char_def Let_def)

lemma ascii_alpha_facts:
  assumes "ascii_alpha c"
  shows "\<not> c0_control_or_space c" "\<not> isspace c" "c \<noteq> CHR ''/''"
  using assms by (auto simp: ascii_alpha_def c0_control_or_space_def isspace_def Let_def)

subsection \<open>The blocks of \<open>urlsplit\<close>\<close>

lemma split_scheme_valid:
  "fst (split_scheme u) = [] \<or> valid_scheme (fst (split_scheme u))"
proof (cases "has_scheme u")
  case False
  then show ?thesis by (simp add: split_scheme_def)
next
  case True
  let ?pre = "takeWhile (\<lambda>c. c \<noteq> CHR '':'') u"
  from True obtain c cs where pre: "?pre = c # cs" and alpha: "ascii_alpha c"
    by (auto simp: has_scheme_def split: list.splits)
  from True have all: "\<forall>x\<in>set ?pre. x \<in> set scheme_chars"
    by (simp add: has_scheme_def list_all_iff)
  have "valid_scheme (map lower_char ?pre)"
    unfolding valid_scheme_def
    using pre alpha all by (auto simp: ascii_alpha_lower lower_scheme_char lower_char_idem)
  with True show ?thesis by (simp add: split_scheme_def)
qed

lemma split_scheme_rest: "set (snd (split_scheme u)) \<subseteq> set u"
  by (auto simp: split_scheme_def dest: in_set_dropD)

lemma split_authority_sets:
  "set (fst (split_authority u)) \<subseteq> set u" "set (snd (split_authority u)) \<subseteq> set u"
  by (auto simp: split_authority_def splitnetloc_def dest!: set_takeWhileD set_dropWhileD in_set_dropD)

lemma split_authority_no_delim: "c \<in> set (fst (split_authority u)) \<Longrightarrow> \<not> netloc_delim c"
  by (auto simp: split_authority_def splitnetloc_def dest!: set_takeWhileD split: if_splits)

lemma split_first_fst: "set (fst (split_first sep u)) \<subseteq> set u" "sep \<notin> set (fst (split_first sep u))"
  by (auto simp: split_first_def dest!: set_takeWhileD)

lemma strip_unsafe_chars: "c \<in> set (strip_unsafe u) \<Longrightarrow> c \<in> set u \<and> \<not> unsafe_url_byte c"
  by (auto simp: strip_unsafe_def dest!: set_dropWhileD)

lemma urlsplit_InrD:
  assumes "urlsplit lib u = Inr r"
  shows "scheme r = fst (split_scheme (strip_unsafe u))"
    and "netloc r = fst (split_authority (snd (split_scheme (strip_unsafe u))))"
    and "path r = fst (split_first (CHR ''?'') (fst (split_first (CHR ''#'')
                    (snd (split_authority (snd (split_scheme (strip_unsafe u))))))))"
    and "\<not> invalid_brackets lib (snd (split_scheme (strip_unsafe u))) (netloc r)"
    and "checknetloc lib (netloc r)"
  using assms by (auto simp: urlsplit_def Let_def split_def split: if_splits)

lemma urlsplit_scheme_valid:
  "urlsplit lib u = Inr r \<Longrightarrow> scheme r = [] \<or> valid_scheme (scheme r)"
  using split_scheme_valid by (simp add: urlsplit_InrD(1))

lemma urlsplit_netloc_chars:
  assumes "urlsplit lib u = Inr r" "c \<in> set (netloc r)"
  shows "\<not> netloc_delim c" "\<not> unsafe_url_byte c" "c \<in> set u"
proof -
  from assms have c: "c \<in> set (fst (split_authority (snd (split_scheme (strip_unsafe u)))))"
    by (simp add: urlsplit_InrD(2))
  then show "\<not> netloc_delim c" by (rule split_authority_no_delim)
  from c have "c \<in> set (strip_unsafe u)"
    using split_authority_sets(1) split_scheme_rest by blast
  then show "\<not> unsafe_url_byte c" "c \<in> set u" by (auto dest: strip_unsafe_chars)
qed

lemma urlsplit_path_chars:
  assumes "urlsplit lib u = Inr r" "c \<in> set (path r)"
  shows "c \<noteq> CHR ''#''" "c \<noteq> CHR ''?''" "\<not> unsafe_url_byte c" "c \<in> set u"
proof -
  let ?u3 = "snd (split_authority (snd (split_scheme (strip_unsafe u))))"
  let ?u4 = "fst (split_first (CHR ''#'') ?u3)"
  from assms have c: "c \<in> set (fst (split_first (CHR ''?'') ?u4))"
    by (simp add: urlsplit_InrD(3))
  then show "c \<noteq> CHR ''?''" using split_first_fst(2) by metis
  from c have c4: "c \<in> set ?u4" using split_first_fst(1) by blast
  then show "c \<noteq> CHR ''#''" using split_first_fst(2) by metis
  from c4 have "c \<in> set ?u3" using split_first_fst(1) by blast
  then have "c \<in> set (strip_unsafe u)"
    using split_authority_sets(2) split_scheme_rest by blast
  then show "\<not> unsafe_url_byte c" "c \<in> set u" by (auto dest: strip_unsafe_chars)
qed

lemma urlsplit_netloc_accepted:
  assumes "urlsplit lib u = Inr r" "netloc r \<noteq> []"
  shows "netloc_accepted lib (netloc r)"
proof -
  let ?u2 = "snd (split_scheme (strip_unsafe u))"
  from assms have "take 2 ?u2 = ''//''"
    by (auto simp: urlsplit_InrD(2) split_authority_def split: if_splits)
  with urlsplit_InrD(4,5)[OF assms(1)] show ?thesis
    by (auto simp: invalid_brackets_def netloc_accepted_def)
qed

subsection \<open>Splitting a normalised URL again\<close>

lemma takeWhile_prefix_stop:
  "(\<And>x. x \<in> set xs \<Longrightarrow> P x) \<Longrightarrow> (ys = [] \<or> \<not> P (hd ys)) \<Longrightarrow> takeWhile P (xs @ ys) = xs"
  by (cases ys) (auto simp: takeWhile_append2)

lemma dropWhile_prefix_stop:
  "(\<And>x. x \<in> set xs \<Longrightarrow> P x) \<Longrightarrow> (ys = [] \<or> \<not> P (hd ys)) \<Longrightarrow> dropWhile P (xs @ ys) = ys"
  by (cases ys) (auto simp: dropWhile_append2)

lemma urlsplit_canonical:
  assumes s: "valid_scheme s"
      and n: "n \<noteq> []" "\<And>c. c \<in> set n \<Longrightarrow> \<not> netloc_delim c \<and> \<not> unsafe_url_byte c"
             "netloc_accepted lib n"
      and p: "p = [] \<or> hd p = CHR ''/''"
             "\<And>c. c \<in> set p \<Longrightarrow> c \<noteq> CHR ''#'' \<and> c \<noteq> CHR ''?'' \<and> \<not> unsafe_url_byte c"
  shows "urlsplit lib (s @ ''://'' @ n @ p)
         = Inr \<lparr>scheme = s, netloc = n, path = p, query = [], fragment = []\<rparr>"
proof -
  let ?y = "s @ CHR '':'' # CHR ''/'' # CHR ''/'' # n @ p"
  from s obtain a s' where s_eq: "s = a # s'" and alpha: "ascii_alpha a"
    by (cases s) (auto simp: valid_scheme_def)
  from s have s_chars: "\<And>c. c \<in> set s \<Longrightarrow> c \<in> set scheme_chars"
    and s_lower: "map lower_char s = s"
    by (auto simp: valid_scheme_def)
  have "dropWhile c0_control_or_space ?y = ?y"
    using alpha by (simp add: s_eq ascii_alpha_facts)
  moreover have "filter (\<lambda>c. \<not> unsafe_url_byte c) ?y = ?y"
  proof -
    have "\<And>c. c \<in> set s \<Longrightarrow> \<not> unsafe_url_byte c"
      using s_chars scheme_char_facts(1) by blast
    moreover have "\<not> unsafe_url_byte (CHR '':'')" "\<not> unsafe_url_byte (CHR ''/'')"
      by (simp_all add: unsafe_url_byte_def)
    ultimately show ?thesis
      using n(2) p(2) by (auto simp: filter_id_conv)
  qed
  ultimately have clean: "strip_unsafe ?y = ?y"
    by (simp add: strip_unsafe_def)
  have pre: "takeWhile (\<lambda>c. c \<noteq> CHR '':'') ?y = s"
    using takeWhile_prefix_stop[of s "\<lambda>c. c \<noteq> CHR '':''" "CHR '':'' # CHR ''/'' # CHR ''/'' # n @ p"] s_chars
    by (auto simp: scheme_char_facts)
  have "CHR '':'' \<in> set ?y"
    by simp
  moreover have "case takeWhile (\<lambda>c. c \<noteq> CHR '':'') ?y of [] \<Rightarrow> False | c # _ \<Rightarrow> ascii_alpha c"
    by (simp only: pre) (simp add: s_eq alpha)
  moreover have "list_all (\<lambda>c. c \<in> set scheme_chars) (takeWhile (\<lambda>c. c \<noteq> CHR '':'') ?y)"
    by (simp only: pre) (simp add: list_all_iff s_chars)
  ultimately have "has_scheme ?y"
    unfolding has_scheme_def by (intro conjI)
  then have sch: "split_scheme ?y = (s, CHR ''/'' # CHR ''/'' # n @ p)"
    by (simp add: split_scheme_def pre s_lower)
  have delim: "p = [] \<or> netloc_delim (hd p)"
    using p(1) by (auto simp: netloc_delim_def)
  have "takeWhile (\<lambda>c. \<not> netloc_delim c) (n @ p) = n"
    using takeWhile_prefix_stop[of n "\<lambda>c. \<not> netloc_delim c" p] n(2) delim by auto
  moreover have "dropWhile (\<lambda>c. \<not> netloc_delim c) (n @ p) = p"
    using dropWhile_prefix_stop[of n "\<lambda>c. \<not> netloc_delim c" p] n(2) delim by auto
  ultimately have auth: "split_authority (CHR ''/'' # CHR ''/'' # n @ p) = (n, p)"
    by (simp add: split_authority_def splitnetloc_def)
  have br: "\<not> invalid_brackets lib (CHR ''/'' # CHR ''/'' # n @ p) n"
    using n(3) by (auto simp: invalid_brackets_def netloc_accepted_def)
  have frag: "split_first (CHR ''#'') p = (p, [])" and qry: "split_first (CHR ''?'') p = (p, [])"
    using p(2) by (auto simp: split_first_def)
  have chk: "checknetloc lib n"
    using n(3) by (simp add: netloc_accepted_def)
  show ?thesis
    by (simp add: urlsplit_def Let_def clean sch auth br frag qry chk)
qed

lemma rstrip_char_subset: "set (rstrip_char c s) \<subseteq> set s"
  by (auto simp: rstrip_char_def dest: set_dropWhileD)

lemma rstrip_char_last: "rstrip_char c s = [] \<or> last (rstrip_char c s) \<noteq> c"
proof (cases "dropWhile (\<lambda>x. x = c) (rev s)")
  case Nil
  then show ?thesis by (simp add: rstrip_char_def)
next
  case (Cons a as)
  then have "a \<noteq> c" using hd_dropWhile[of "\<lambda>x. x = c" "rev s"] by auto
  with Cons show ?thesis by (simp add: rstrip_char_def)
qed

lemma rstrip_char_id: "t = [] \<or> last t \<noteq> c \<Longrightarrow> rstrip_char c t = t"
  by (cases "rev t") (auto simp: rstrip_char_def last_rev[symmetric] simp del: last_rev)

lemma strip_subset: "set (strip x) \<subseteq> set x"
  by (auto simp: strip_def dest!: set_dropWhileD)

lemma strip_id:
  assumes "y \<noteq> []" "\<not> isspace (hd y)" "\<not> isspace (last y)"
  shows "strip y = y"
proof -
  from assms(1,2) have "dropWhile isspace y = y" by (cases y) auto
  moreover from assms(1,3) have "dropWhile isspace (rev y) = rev y"
    by (cases "rev y") (auto simp: hd_rev[symmetric] simp del: hd_rev)
  ultimately show ?thesis by (simp add: strip_def)
qed

lemma valid_scheme_https: "valid_scheme ''https''"
  by (simp add: valid_scheme_def ascii_alpha_def scheme_chars_def lower_char_def)

lemma netloc_default:
  "netloc_accepted lib ''smithery.ai''"
  "c \<in> set ''smithery.ai'' \<Longrightarrow> \<not> netloc_delim c \<and> \<not> unsafe_url_byte c \<and> \<not> isspace c"
  by (auto simp: netloc_accepted_def checknetloc_def isascii_char_def netloc_delim_def
      unsafe_url_byte_def isspace_def)

lemma base_url_chars: "c \<in> set BASE_URL \<Longrightarrow> \<not> isspace c"
  by (auto simp: BASE_URL_def isspace_def)

lemma urlunsplit_normalized:
  "s \<noteq> [] \<Longrightarrow> n \<noteq> [] \<Longrightarrow>
   urlunsplit \<lparr>scheme = s, netloc = n, path = pa, query = [], fragment = []\<rparr>
     = s @ CHR '':'' # CHR ''/'' # CHR ''/'' # n @ (if pa \<noteq> [] \<and> take 1 pa \<noteq> ''/'' then CHR ''/'' # pa else pa)"
  by (simp add: urlunsplit_def Let_def)

lemma normalize_shape:
  assumes "normalize_server_url lib x = Inr y" "x \<noteq> []"
  obtains s n p where
    "y = s @ CHR '':'' # CHR ''/'' # CHR ''/'' # n @ p"
    "valid_scheme s"
    "n \<noteq> []" "\<And>c. c \<in> set n \<Longrightarrow> \<not> netloc_delim c \<and> \<not> unsafe_url_byte c"
    "netloc_accepted lib n"
    "p = [] \<or> hd p = CHR ''/''"
    "\<And>c. c \<in> set p \<Longrightarrow> c \<noteq> CHR ''#'' \<and> c \<noteq> CHR ''?'' \<and> \<not> unsafe_url_byte c"
    "p = [] \<or> last p \<noteq> CHR ''/''"
    "\<And>c. c \<in> set n \<union> set p \<Longrightarrow> isspace c \<Longrightarrow> c \<in> set x"
proof -
  define u where "u = (if startswith (strip x) ''/server/'' then BASE_URL @ strip x else strip x)"
  from assms obtain r where r: "urlsplit lib u = Inr r"
    and y: "y = urlunsplit \<lparr>scheme = (if scheme r \<noteq> [] then scheme r else ''https''),
                  netloc = (if netloc r \<noteq> [] then netloc r else ''smithery.ai''),
                  path = rstrip_char (CHR ''/'') (path r),
                  query = [], fragment = []\<rparr>"
    by (auto simp: normalize_server_url_def Let_def u_def split: sum.splits)
  define s where "s = (if scheme r \<noteq> [] then scheme r else ''https'')"
  define n where "n = (if netloc r \<noteq> [] then netloc r else ''smithery.ai'')"
  define pa where "pa = rstrip_char (CHR ''/'') (path r)"
  define p where "p = (if pa \<noteq> [] \<and> take 1 pa \<noteq> ''/'' then CHR ''/'' # pa else pa)"
  have u_space: "\<And>c. c \<in> set u \<Longrightarrow> isspace c \<Longrightarrow> c \<in> set x"
    using strip_subset[of x] base_url_chars by (auto simp: u_def split: if_splits)
  have vs: "valid_scheme s"
    using urlsplit_scheme_valid[OF r] valid_scheme_https by (auto simp: s_def)
  then have s_ne: "s \<noteq> []" by (simp add: valid_scheme_def)
  have n_ne: "n \<noteq> []" by (simp add: n_def)
  have n_chars: "\<And>c. c \<in> set n \<Longrightarrow> \<not> netloc_delim c \<and> \<not> unsafe_url_byte c"
    using urlsplit_netloc_chars[OF r] netloc_default(2) by (auto simp: n_def split: if_splits)
  have n_acc: "netloc_accepted lib n"
    using urlsplit_netloc_accepted[OF r] netloc_default(1) by (auto simp: n_def)
  have n_space: "\<And>c. c \<in> set n \<Longrightarrow> isspace c \<Longrightarrow> c \<in> set x"
    using urlsplit_netloc_chars(3)[OF r] netloc_default(2) u_space
    by (auto simp: n_def split: if_splits)
  have pa_chars: "\<And>c. c \<in> set pa \<Longrightarrow> c \<in> set (path r)"
    using rstrip_char_subset by (auto simp: pa_def)
  have pa_last: "pa = [] \<or> last pa \<noteq> CHR ''/''"
    unfolding pa_def by (rule rstrip_char_last)
  have slash: "\<not> unsafe_url_byte (CHR ''/'')" "\<not> isspace (CHR ''/'')"
    by (simp_all add: unsafe_url_byte_def isspace_def)
  have p_set: "\<And>c. c \<in> set p \<Longrightarrow> c = CHR ''/'' \<or> c \<in> set (path r)"
    using pa_chars by (auto simp: p_def split: if_splits)
  have p_hd: "p = [] \<or> hd p = CHR ''/''"
    by (cases pa) (auto simp: p_def)
  have p_chars: "\<And>c. c \<in> set p \<Longrightarrow> c \<noteq> CHR ''#'' \<and> c \<noteq> CHR ''?'' \<and> \<not> unsafe_url_byte c"
    using p_set urlsplit_path_chars(1,2,3)[OF r] slash(1) by fastforce
  have p_last: "p = [] \<or> last p \<noteq> CHR ''/''"
    using pa_last by (auto simp: p_def)
  have p_space: "\<And>c. c \<in> set p \<Longrightarrow> isspace c \<Longrightarrow> c \<in> set x"
    using p_set urlsplit_path_chars(4)[OF r] u_space slash(2) by blast
  have "y = s @ CHR '':'' # CHR ''/'' # CHR ''/'' # n @ p"
    unfolding y s_def[symmetric] n_def[symmetric] pa_def[symmetric] p_def
    using s_ne n_ne by (rule urlunsplit_normalized)
  then show ?thesis
    using that[of s n p] vs n_ne n_chars n_acc p_hd p_chars p_last n_space p_space by blast
qed


lemma startswith_hd: "startswith y (c # cs) \<Longrightarrow> y \<noteq> [] \<and> hd y = c"
  by (cases y) (auto simp: startswith_def)

lemma last_shape:
  "n \<noteq> [] \<Longrightarrow> last (s @ CHR '':'' # CHR ''/'' # CHR ''/'' # n @ p) = (if p = [] then last n else last p)"
  by simp

lemma normalize_fixed:
  assumes "normalize_server_url lib x = Inr y" "y = [] \<or> \<not> isspace (last y)"
  shows "normalize_server_url lib y = Inr y"
proof (cases "x = []")
  case True
  with assms(1) show ?thesis by (simp add: normalize_server_url_def)
next
  case False
  show ?thesis
  proof (rule normalize_shape[OF assms(1) False])
    fix s n p
    assume y: "y = s @ CHR '':'' # CHR ''/'' # CHR ''/'' # n @ p"
      and vs: "valid_scheme s"
      and n: "n \<noteq> []" "\<And>c. c \<in> set n \<Longrightarrow> \<not> netloc_delim c \<and> \<not> unsafe_url_byte c"
        "netloc_accepted lib n"
      and p: "p = [] \<or> hd p = CHR ''/''"
        "\<And>c. c \<in> set p \<Longrightarrow> c \<noteq> CHR ''#'' \<and> c \<noteq> CHR ''?'' \<and> \<not> unsafe_url_byte c"
        "p = [] \<or> last p \<noteq> CHR ''/''"
    from vs have s_ne: "s \<noteq> []" and alpha: "ascii_alpha (hd s)"
      by (simp_all add: valid_scheme_def)
    have y_ne: "y \<noteq> []" by (simp add: y)
    have hd_y: "hd y = hd s" using s_ne by (simp add: y)
    have h1: "\<not> isspace (hd y)" and h2: "hd y \<noteq> CHR ''/''"
      using alpha ascii_alpha_facts[of "hd s"] by (simp_all add: hd_y)
    have h3: "\<not> isspace (last y)" using assms(2) y_ne by blast
    have st: "strip y = y"
      using y_ne h1 h3 by (rule strip_id)
    have sw: "\<not> startswith y ''/server/''"
      using startswith_hd[of y "CHR ''/''" "''server/''"] h2 by blast
    have sp: "urlsplit lib y = Inr \<lparr>scheme = s, netloc = n, path = p, query = [], fragment = []\<rparr>"
      unfolding y using urlsplit_canonical[OF vs n p(1,2)] by simp
    have rs: "rstrip_char (CHR ''/'') p = p"
      using p(3) by (rule rstrip_char_id)
    have "\<not> (p \<noteq> [] \<and> take 1 p \<noteq> ''/'')"
      using p(1) by (cases p) auto
    then have un: "urlunsplit \<lparr>scheme = s, netloc = n, path = p, query = [], fragment = []\<rparr> = y"
      unfolding y using urlunsplit_normalized[OF s_ne n(1), of p] by presburger
    show "normalize_server_url lib y = Inr y"
      unfolding normalize_server_url_def Let_def st
      using y_ne sw s_ne n(1) by (simp add: sp rs un)
  qed
qed

lemma normalize_no_space:
  assumes "normalize_server_url lib x = Inr y" "\<forall>c\<in>set x. \<not> isspace c"
  shows "y = [] \<or> \<not> isspace (last y)"
proof (cases "x = []")
  case True
  with assms(1) show ?thesis by (simp add: normalize_server_url_def)
next
  case False
  show ?thesis
  proof (rule normalize_shape[OF assms(1) False])
    fix s n p
    assume y: "y = s @ CHR '':'' # CHR ''/'' # CHR ''/'' # n @ p"
      and n: "n \<noteq> []"
      and sp: "\<And>c. c \<in> set n \<union> set p \<Longrightarrow> isspace c \<Longrightarrow> c \<in> set x"
    have "last y \<in> set n \<union> set p"
      using n by (cases "p = []") (simp_all add: y)
    with sp assms(2) show ?thesis by blast
  qed
qed

lemmas url_eval_defs = normalize_server_url_def strip_def isspace_def startswith_def urlsplit_def Let_def
  strip_unsafe_def c0_control_or_space_def unsafe_url_byte_def split_scheme_def has_scheme_def
  ascii_alpha_def scheme_chars_def split_authority_def splitnetloc_def netloc_delim_def
  invalid_brackets_def split_first_def checknetloc_def isascii_char_def lower_char_def
  urlunsplit_def rstrip_char_def BASE_URL_def

lemma urlsplit_returns:
  assumes "\<And>c. c \<in> set u \<Longrightarrow> isascii_char c \<and> c \<noteq> CHR ''['' \<and> c \<noteq> CHR '']''"
  shows "\<exists>r. urlsplit lib u = Inr r"
proof -
  let ?u2 = "snd (split_scheme (strip_unsafe u))"
  let ?n = "fst (split_authority ?u2)"
  have sub: "set ?n \<subseteq> set u"
    using split_authority_sets(1)[of ?u2] split_scheme_rest[of "strip_unsafe u"]
      strip_unsafe_chars[of _ u] by blast
  have "\<not> invalid_brackets lib ?u2 ?n"
    using sub assms by (auto simp: invalid_brackets_def)
  moreover have "checknetloc lib ?n"
    using sub assms by (auto simp: checknetloc_def list_all_iff)
  ultimately show ?thesis
    by (simp add: urlsplit_def Let_def split_def)
qed

lemma normalize_returns:
  assumes "list_all isascii_char x" "CHR ''['' \<notin> set x" "CHR '']'' \<notin> set x"
  shows "\<exists>y. normalize_server_url lib x = Inr y"
proof -
  have x: "\<And>c. c \<in> set x \<Longrightarrow> isascii_char c \<and> c \<noteq> CHR ''['' \<and> c \<noteq> CHR '']''"
    using assms by (auto simp: list_all_iff)
  have b: "\<And>c. c \<in> set BASE_URL \<Longrightarrow> isascii_char c \<and> c \<noteq> CHR ''['' \<and> c \<noteq> CHR '']''"
    by (auto simp: BASE_URL_def isascii_char_def)
  let ?u = "if startswith (strip x) ''/server/'' then BASE_URL @ strip x else strip x"
  have "\<And>c. c \<in> set ?u \<Longrightarrow> isascii_char c \<and> c \<noteq> CHR ''['' \<and> c \<noteq> CHR '']''"
    using x b strip_subset[of x] by (auto split: if_splits)
  then obtain r where "urlsplit lib ?u = Inr r"
    using urlsplit_returns[of ?u lib] by blast
  then show ?thesis
    by (simp add: normalize_server_url_def Let_def)
qed

lemma normalize_empty_iff: "normalize_server_url lib x = Inr [] \<longleftrightarrow> x = []"
proof
  assume e: "normalize_server_url lib x = Inr []"
  show "x = []"
  proof (rule ccontr)
    assume "x \<noteq> []"
    with e show False by (rule normalize_shape) simp
  qed
next
  assume "x = []"
  then show "normalize_server_url lib x = Inr []" by (simp add: normalize_server_url_def)
qed

subsection \<open>When the normaliser raises\<close>

lemma split_authority_empty: "take 2 u \<noteq> ''//'' \<Longrightarrow> fst (split_authority u) = []"
  by (simp add: split_authority_def)

lemma urlsplit_raises_iff:
  "urlsplit lib u = Inl ValueError \<longleftrightarrow> netloc_rejected lib (url_netloc u)"
proof -
  let ?u2 = "snd (split_scheme (strip_unsafe u))"
  let ?n = "fst (split_authority ?u2)"
  have "urlsplit lib u = Inl ValueError \<longleftrightarrow> invalid_brackets lib ?u2 ?n \<or> \<not> checknetloc lib ?n"
    by (simp add: urlsplit_def Let_def split_def)
  moreover have "invalid_brackets lib ?u2 ?n \<or> \<not> checknetloc lib ?n \<longleftrightarrow> netloc_rejected lib ?n"
  proof (cases "take 2 ?u2 = ''//''")
    case True
    then show ?thesis
      by (auto simp: invalid_brackets_def netloc_rejected_def checknetloc_def)
  next
    case False
    then have "?n = []" by (rule split_authority_empty)
    with False show ?thesis
      by (simp add: invalid_brackets_def netloc_rejected_def checknetloc_def)
  qed
  ultimately show ?thesis by (simp add: url_netloc_def)
qed

lemma urlsplit_returns_iff:
  "(\<exists>r. urlsplit lib u = Inr r) \<longleftrightarrow> \<not> netloc_rejected lib (url_netloc u)"
proof -
  have "(\<exists>r. urlsplit lib u = Inr r) \<longleftrightarrow> urlsplit lib u \<noteq> Inl ValueError"
    by (cases "urlsplit lib u") (auto dest: urlsplit_error)
  then show ?thesis by (simp add: urlsplit_raises_iff)
qed

lemma normalize_raises_iff:
  "normalize_server_url lib x = Inl ValueError
     \<longleftrightarrow> x \<noteq> [] \<and> netloc_rejected lib (url_netloc (url_for_split x))"
  using urlsplit_raises_iff[of lib "url_for_split x"]
  by (auto simp: normalize_server_url_def Let_def url_for_split_def split: sum.splits
      dest: urlsplit_error)




subsection \<open>The claims about \<open>normalize_server_url\<close>\<close>

text \<open>
  Claim C4, as stated, fails: a URL with a space before its fragment normalises to a
  string that ends in that space, and normalising again removes it.
\<close>

theorem normalize_server_url_not_idempotent:
  "normalize_server_url accept_all ''https://smithery.ai/server/foo #tools''
     = Inr ''https://smithery.ai/server/foo ''
   \<and> normalize_server_url accept_all ''https://smithery.ai/server/foo ''
     = Inr ''https://smithery.ai/server/foo''
   \<and> ''https://smithery.ai/server/foo '' \<noteq> ''https://smithery.ai/server/foo''"
  by (simp add: url_eval_defs)

text \<open>
  Claim C4, amended. Normalising is idempotent on every input whose normal form does
  not end in a whitespace character, in particular on every input without whitespace:
  if \<open>normalize_server_url x\<close> returns \<open>y\<close>, then \<open>normalize_server_url y\<close> returns
  \<open>y\<close>. The relative form \<open>/server/foo/\<close> and the absolute form with query
  \<open>https://smithery.ai/server/foo?x=1\<close> normalise to the same URL.
\<close>

theorem normalize_server_url_idempotent:
  "(normalize_server_url lib x = Inr y \<and> (y = [] \<or> \<not> isspace (last y))
      \<longrightarrow> normalize_server_url lib y = Inr y)
   \<and> ((\<forall>c\<in>set x. \<not> isspace c) \<and> normalize_server_url lib x = Inr y
      \<longrightarrow> normalize_server_url lib y = Inr y)
   \<and> normalize_server_url lib ''/server/foo/'' = Inr ''https://smithery.ai/server/foo''
   \<and> normalize_server_url lib ''https://smithery.ai/server/foo?x=1''
       = Inr ''https://smithery.ai/server/foo''"
proof (intro conjI impI)
  assume "normalize_server_url lib x = Inr y \<and> (y = [] \<or> \<not> isspace (last y))"
  then show "normalize_server_url lib y = Inr y"
    using normalize_fixed by blast
next
  assume a: "(\<forall>c\<in>set x. \<not> isspace c) \<and> normalize_server_url lib x = Inr y"
  then have "y = [] \<or> \<not> isspace (last y)"
    using normalize_no_space by blast
  with a show "normalize_server_url lib y = Inr y"
    using normalize_fixed by blast
next
  show "normalize_server_url lib ''/server/foo/'' = Inr ''https://smithery.ai/server/foo''"
    by (simp add: url_eval_defs)
next
  show "normalize_server_url lib ''https://smithery.ai/server/foo?x=1''
       = Inr ''https://smithery.ai/server/foo''"
    by (simp add: url_eval_defs)
qed

theorem normalize_server_url_idempotent_witness:
  "normalize_server_url accept_all ''/server/foo/'' = Inr ''https://smithery.ai/server/foo''
   \<and> normalize_server_url accept_all ''https://smithery.ai/server/foo''
       = Inr ''https://smithery.ai/server/foo''"
  using normalize_server_url_idempotent
    [of accept_all "''/server/foo/''" "''https://smithery.ai/server/foo''"]
  by (simp add: isspace_def)




text \<open>
  Claim C6, as stated, fails: on the empty input the normaliser returns the empty
  string.
\<close>

theorem normalize_server_url_empty_string:
  "normalize_server_url accept_all [] = Inr []"
  by (simp add: normalize_server_url_def)

text \<open>
  Claim C6, amended. The normaliser returns the empty string on the empty input and on
  no other input; and every non-empty input that \<open>urlsplit\<close> rejects (those whose
  network location is rejected, and no others) yields no value: ValueError is raised.
\<close>

theorem normalize_server_url_empty_iff:
  "(normalize_server_url lib x = Inr [] \<longleftrightarrow> x = [])
   \<and> (normalize_server_url lib x = Inl ValueError
      \<longleftrightarrow> (x \<noteq> [] \<and> urlsplit lib (url_for_split x) = Inl ValueError))
   \<and> (normalize_server_url lib x = Inl ValueError
      \<longleftrightarrow> (x \<noteq> [] \<and> netloc_rejected lib (url_netloc (url_for_split x))))
   \<and> normalize_server_url lib ''//a]b'' = Inl ValueError"
proof -
  have "normalize_server_url lib ''//a]b'' = Inl ValueError"
    by (simp add: url_eval_defs)
  then show ?thesis
    using normalize_empty_iff[of lib x] normalize_raises_iff[of lib x]
      urlsplit_raises_iff[of lib "url_for_split x"]
    by blast
qed

theorem normalize_server_url_empty_iff_witness:
  "normalize_server_url accept_all ''//a]b'' = Inl ValueError
   \<and> urlsplit accept_all (url_for_split ''//a]b'') = Inl ValueError
   \<and> normalize_server_url accept_all ''//a]b'' \<noteq> Inr []"
proof -
  note t = normalize_server_url_empty_iff [of accept_all "''//a]b''"]
  from t have a: "normalize_server_url accept_all ''//a]b'' = Inl ValueError"
    by blast
  from t a have b: "urlsplit accept_all (url_for_split ''//a]b'') = Inl ValueError"
    by blast
  from a b show ?thesis
    by simp
qed

end
